theory Spec2Isabelle
  imports Main "HOL-Library.Sublist"
begin

section \<open>JavaScript values and string primitives used by the full-text index\<close>

text \<open>
  Strings are modelled as \<^typ>\<open>string\<close>; the index only ever builds its metadata from ASCII
  digits and commas, where a character is one UTF-16 code unit and one byte.  A JavaScript
  number that results from \<open>parseInt\<close> is an integer or \<open>NaN\<close>: \<^typ>\<open>int option\<close>, with
  \<^term>\<open>None\<close> for \<open>NaN\<close> (exact for magnitudes below \<open>2^53\<close>).
\<close>

type_synonym jsnum = "int option"

datatype error =
    TypeError
  | AssertionError
  | NotImplemented
  | UnsupportedOperator
  | SyntaxError
  | SubstrateError string
  | Unmodelled

text \<open>\<open>Array.prototype.join\<close> on an array of strings.\<close>

fun join :: "string \<Rightarrow> string list \<Rightarrow> string" where
  "join sep [] = []"
| "join sep [x] = x"
| "join sep (x # y # ys) = x @ sep @ join sep (y # ys)"

text \<open>\<open>Number.prototype.toString\<close> for a non-negative integer below \<open>10^21\<close>: plain decimal digits.\<close>

definition digit_char :: "nat \<Rightarrow> char" where
  "digit_char d = ''0123456789'' ! d"

function number_toString :: "nat \<Rightarrow> string" where
  "number_toString n =
     (if n < 10 then [digit_char n] else number_toString (n div 10) @ [digit_char (n mod 10)])"
  by pat_completeness auto
termination
  by (relation "measure (\<lambda>n. n)") auto

declare number_toString.simps [simp del]

text \<open>
  \<open>s.lastIndexOf(c, fromIndex)\<close> for a one-character search string: the greatest index
  \<open>k \<le> fromIndex\<close> with \<open>s[k] = c\<close>, or \<open>-1\<close>.
\<close>

fun lastIndexOf :: "char \<Rightarrow> string \<Rightarrow> nat \<Rightarrow> int" where
  "lastIndexOf c s 0 = (if s \<noteq> [] \<and> s ! 0 = c then 0 else - 1)"
| "lastIndexOf c s (Suc k) =
     (if Suc k < length s \<and> s ! Suc k = c then int (Suc k) else lastIndexOf c s k)"

text \<open>\<open>s.slice(0, e)\<close>: a negative end counts from the end of the string.\<close>

definition slice0 :: "string \<Rightarrow> int \<Rightarrow> string" where
  "slice0 s e = (if e < 0 then take (nat (int (length s) + e)) s else take (nat e) s)"

text \<open>\<open>s.split(c)\<close> for a one-character separator; the empty string splits into \<open>['''']\<close>.\<close>

fun split_char :: "char \<Rightarrow> string \<Rightarrow> string list" where
  "split_char c [] = [[]]"
| "split_char c (x # xs) =
     (if x = c then [] # split_char c xs
      else (x # hd (split_char c xs)) # tl (split_char c xs))"

subsection \<open>\<open>parseInt(string, radix)\<close>\<close>

definition is_space :: "char \<Rightarrow> bool" where
  "is_space c \<longleftrightarrow> c \<in> set [CHR '' '', CHR 0x09, CHR 0x0A, CHR 0x0B, CHR 0x0C, CHR 0x0D]"

definition digit_val :: "char \<Rightarrow> nat option" where
  "digit_val c =
     (let n = (of_char c :: nat) in
      if 48 \<le> n \<and> n \<le> 57 then Some (n - 48)
      else if 97 \<le> n \<and> n \<le> 122 then Some (n - 87)
      else if 65 \<le> n \<and> n \<le> 90 then Some (n - 55)
      else None)"

definition is_radix_digit :: "nat \<Rightarrow> char \<Rightarrow> bool" where
  "is_radix_digit r c = (case digit_val c of None \<Rightarrow> False | Some d \<Rightarrow> d < r)"

fun radix_value :: "nat \<Rightarrow> nat \<Rightarrow> string \<Rightarrow> nat" where
  "radix_value r acc [] = acc"
| "radix_value r acc (c # cs) = radix_value r (acc * r + the (digit_val c)) cs"

definition strip_0x :: "string \<Rightarrow> string option" where
  "strip_0x s =
     (case s of
        a # b # rest \<Rightarrow> if a = CHR ''0'' \<and> (b = CHR ''x'' \<or> b = CHR ''X'') then Some rest else None
      | _ \<Rightarrow> None)"

definition parseInt :: "string \<Rightarrow> nat \<Rightarrow> jsnum" where
  "parseInt str radix =
     (let s0 = dropWhile is_space str;
          neg = (s0 \<noteq> [] \<and> hd s0 = CHR ''-'');
          s1 = (if s0 \<noteq> [] \<and> (hd s0 = CHR ''+'' \<or> hd s0 = CHR ''-'') then tl s0 else s0)
      in if radix \<noteq> 0 \<and> (radix < 2 \<or> 36 < radix) then None
         else
           let strip = (radix = 0 \<or> radix = 16);
               r0 = (if radix = 0 then 10 else radix);
               hex = (if strip then strip_0x s1 else None);
               r = (case hex of None \<Rightarrow> r0 | Some _ \<Rightarrow> 16);
               s2 = (case hex of None \<Rightarrow> s1 | Some rest \<Rightarrow> rest);
               z = takeWhile (is_radix_digit r) s2
           in if z = [] then None
              else Some ((if neg then - 1 else 1) * int (radix_value r 0 z)))"

section \<open>Metadata codec for \<open>_occurs_\<close>\<close>

text \<open>
  Writing (\<open>handleRecordUpdate\<close>, lines 538-543, and \<open>build\<close>, lines 594-599): the index list
  joined with commas, cut at \<open>lastIndexOf('','', 255)\<close> when longer than 255.
\<close>

definition encode_occurs :: "nat list \<Rightarrow> string" where
  "encode_occurs indexes =
     (let occurs = join '','' (map number_toString indexes)
      in if length occurs > 255
         then slice0 occurs (lastIndexOf CHR '','' occurs 255)
         else occurs)"

text \<open>
  Reading (\<open>contains\<close>, line 926): \<open>split('','').map(parseInt)\<close>.  \<open>Array.prototype.map\<close> calls
  its callback with the element and its index, and \<open>parseInt\<close> takes the second argument as the
  radix, so field \<open>i\<close> is parsed with radix \<open>i\<close>.
\<close>

fun map_index :: "(nat \<Rightarrow> 'a \<Rightarrow> 'b) \<Rightarrow> nat \<Rightarrow> 'a list \<Rightarrow> 'b list" where
  "map_index f i [] = []"
| "map_index f i (x # xs) = f i x # map_index f (Suc i) xs"

definition decode_occurs :: "string \<Rightarrow> jsnum list" where
  "decode_occurs s = map_index (\<lambda>i field. parseInt field i) 0 (split_char CHR '','' s)"

definition field_ok :: "string \<Rightarrow> bool" where
  "field_ok f \<longleftrightarrow> f \<noteq> [] \<and> CHR '','' \<notin> set f"

section \<open>The tokenizer: \<open>WordInfo\<close> and \<open>TextInfo\<close>\<close>

record WordInfo =
  word :: string
  indexes :: "nat list"
  sourceIndexes :: "nat list"

definition occurs :: "WordInfo \<Rightarrow> nat" where
  "occurs wi = length (indexes wi)"

text \<open>
  \<open>TextInfo.words\<close> is a JavaScript \<open>Map\<close>: keys are unique and iterate in insertion order;
  it is an association list here.  \<open>Map.set\<close> on a new key appends, \<open>Map.delete\<close> removes.
\<close>

record TextInfo =
  ti_locale :: string
  words :: "(string \<times> WordInfo) list"
  ignored :: "string list"

definition getWordInfo :: "TextInfo \<Rightarrow> string \<Rightarrow> WordInfo option" where
  "getWordInfo ti w = map_of (words ti) w"

definition toArray :: "TextInfo \<Rightarrow> string list" where
  "toArray ti = map fst (words ti)"

definition uniqueWordCount :: "TextInfo \<Rightarrow> nat" where
  "uniqueWordCount ti = length (words ti)"

text \<open>The getter \<open>wordCount\<close> (lines 85-92): a running total over \<open>words.values()\<close>.\<close>

definition wordCount :: "TextInfo \<Rightarrow> nat" where
  "wordCount ti = fold (\<lambda>(k, wordInfo) total. total + occurs wordInfo) (words ti) 0"

text \<open>
  \<open>toSequence\<close> (lines 60-68): \<open>arr[index] = word\<close> for every index of every word; a slot
  never written is a hole (\<^term>\<open>None\<close>), and writing past the end extends the array.
\<close>

definition array_set :: "'a option list \<Rightarrow> nat \<Rightarrow> 'a \<Rightarrow> 'a option list" where
  "array_set arr i v =
     (if i < length arr then arr[i := Some v]
      else arr @ replicate (i - length arr) None @ [Some v])"

definition toSequence :: "TextInfo \<Rightarrow> string option list" where
  "toSequence ti =
     fold (\<lambda>(k, wi) arr. fold (\<lambda>index a. array_set a index (word wi)) (indexes wi) arr)
       (words ti) []"

subsection \<open>Locale registry (lines 22-47)\<close>

definition en_stoplist :: "string list" where
  "en_stoplist =
    [''i'', ''me'', ''my'', ''myself'', ''we'', ''our'', ''ours'', ''ourselves'', ''you'', ''your'',
     ''yours'', ''yourself'', ''yourselves'', ''he'', ''him'', ''his'', ''himself'', ''she'', ''her'',
     ''hers'', ''herself'', ''it'', ''its'', ''itself'', ''they'', ''them'', ''their'', ''theirs'',
     ''themselves'', ''what'', ''which'', ''who'', ''whom'', ''this'', ''that'', ''these'', ''those'',
     ''am'', ''is'', ''are'', ''was'', ''were'', ''be'', ''been'', ''being'', ''have'', ''has'', ''had'',
     ''having'', ''do'', ''does'', ''did'', ''doing'', ''a'', ''an'', ''the'', ''and'', ''but'', ''if'',
     ''or'', ''because'', ''as'', ''until'', ''while'', ''of'', ''at'', ''by'', ''for'', ''with'',
     ''about'', ''against'', ''between'', ''into'', ''through'', ''during'', ''before'', ''after'',
     ''above'', ''below'', ''to'', ''from'', ''up'', ''down'', ''in'', ''out'', ''on'', ''off'', ''over'',
     ''under'', ''again'', ''further'', ''then'', ''once'', ''here'', ''there'', ''when'', ''where'',
     ''why'', ''how'', ''all'', ''any'', ''both'', ''each'', ''few'', ''more'', ''most'', ''other'',
     ''some'', ''such'', ''no'', ''nor'', ''not'', ''only'', ''own'', ''same'', ''so'', ''than'', ''too'',
     ''very'', ''s'', ''t'', ''can'', ''will'', ''just'', ''don'', ''should'', ''now'']"

record LocaleSettings =
  ls_pattern :: string
  ls_flags :: string
  ls_stoplist :: "string list option"

text \<open>\<open>s.indexOf(c)\<close> for a one-character search string, \<open>-1\<close> when absent.\<close>

fun indexOf_from :: "char \<Rightarrow> nat \<Rightarrow> string \<Rightarrow> int" where
  "indexOf_from c i [] = - 1"
| "indexOf_from c i (x # xs) = (if x = c then int i else indexOf_from c (Suc i) xs)"

definition indexOf :: "char \<Rightarrow> string \<Rightarrow> int" where
  "indexOf c s = indexOf_from c 0 s"

text \<open>
  \<open>locales.get\<close>: the defaults, overridden by the entry of the locale.  The registry object has
  the own keys \<open>default\<close>, \<open>en\<close> and \<open>get\<close> and what it inherits from \<open>Object.prototype\<close>; only
  \<open>en\<close> carries a setting of its own (the stoplist), and no defined key contains \<open>-\<close>, so a
  locale with \<open>-\<close> after its first character is replaced by its second \<open>-\<close>-separated part.
\<close>

definition locales_get :: "string \<Rightarrow> LocaleSettings" where
  "locales_get loc =
     (let settings = \<lparr> ls_pattern = ''[A-Za-z0-9'' @ [CHR 0x27] @ '']+'', ls_flags = ''gmi'',
                       ls_stoplist = None \<rparr>;
          loc' = (if indexOf CHR ''-'' loc > 0 then split_char CHR ''-'' loc ! 1 else loc)
      in if loc' = ''en'' then settings \<lparr> ls_stoplist := Some en_stoplist \<rparr> else settings)"

subsection \<open>The environment of the tokenizer\<close>

text \<open>
  Three things the constructor calls are not part of the index: the transliterator
  \<open>unidecode\<close>, the regular-expression engine and \<open>String.prototype.toLocaleLowerCase\<close>.  They
  are parameters, and so is \<open>string_member\<close>, which says whether a name is a member that string
  values inherit from \<open>String.prototype\<close> or \<open>Object.prototype\<close> in the engine at hand.
  \<open>regexp_ok pattern flags\<close> says whether \<open>new RegExp(pattern, flags)\<close> accepts its arguments;
  it throws a \<open>SyntaxError\<close> otherwise.  These functions and the callbacks \<open>prepare\<close> and
  \<open>stemming\<close> of the options are taken to return a value.  \<open>regexp_exec_all pattern flags text\<close> is the sequence of \<open>(match[0],
  match.index)\<close> that repeated \<open>re.exec(text)\<close> yields until it returns \<open>null\<close>, and
  \<^term>\<open>None\<close> when it never returns \<open>null\<close> (a pattern without the \<open>g\<close> flag, or one that
  matches the empty string).
\<close>

record js_env =
  unidecode :: "string \<Rightarrow> string"
  regexp_exec_all :: "string \<Rightarrow> string \<Rightarrow> string \<Rightarrow> (string \<times> nat) list option"
  regexp_ok :: "string \<Rightarrow> string \<Rightarrow> bool"
  toLocaleLowerCase :: "string \<Rightarrow> string \<Rightarrow> string"
  string_member :: "string \<Rightarrow> bool"

text \<open>
  A text handed to the constructor: \<open>null\<close> or \<open>undefined\<close>, a string, or any other value
  (a number, an object), which only a \<open>prepare\<close> callback can turn into a string.
\<close>

datatype text_value = TNull | TStr string | TOther

record TextInfoOptions =
  o_locale :: "string option"
  o_pattern :: "string option"
  o_includeChars :: "string option"
  o_flags :: "string option"
  o_prepare :: "(text_value \<Rightarrow> string \<Rightarrow> string \<Rightarrow> string) option"
  o_stemming :: "(string \<Rightarrow> string \<Rightarrow> string option) option"
  o_minLength :: "int option"
  o_maxLength :: "int option"
  o_blacklist :: "string list option"
  o_whitelist :: "string list option"
  o_useStoplist :: "bool option"

text \<open>Lines 169-179: \<open>insert\<close> is spliced in after every \<open>[\<close> of the pattern.\<close>

fun splice_after_brackets :: "string \<Rightarrow> string \<Rightarrow> string" where
  "splice_after_brackets ins [] = []"
| "splice_after_brackets ins (c # cs) =
     (if c = CHR ''['' then c # ins @ splice_after_brackets ins cs
      else c # splice_after_brackets ins cs)"

definition escape_chars :: "string \<Rightarrow> string" where
  "escape_chars cs = concat (map (\<lambda>c. [CHR 0x5C, c]) cs)"

text \<open>\<open>safe_unidecode\<close> (lines 204-211): transliterate until nothing changes.\<close>

partial_function (option) safe_unidecode :: "(string \<Rightarrow> string) \<Rightarrow> string \<Rightarrow> string option" where
  "safe_unidecode dec str =
     (let ret = dec str in if str \<noteq> ret then safe_unidecode dec ret else Some ret)"

declare safe_unidecode.simps [code]

text \<open>The resolved settings the matching loop reads.\<close>

record tokenizer =
  t_locale :: string
  t_stemming :: "(string \<Rightarrow> string \<Rightarrow> string option) option"
  t_lower :: "string \<Rightarrow> string"
  t_minLength :: int
  t_maxLength :: int
  t_blacklist :: "string list"
  t_whitelist :: "string list"

definition push_unique :: "string list \<Rightarrow> string \<Rightarrow> string list" where
  "push_unique xs w = (if w \<in> set xs then xs else xs @ [w])"

text \<open>Lines 259-267: \<open>words.get\<close>, then push onto the entry or \<open>words.set\<close> a new one.\<close>

definition add_occurrence :: "string \<Rightarrow> nat \<Rightarrow> nat \<Rightarrow> (string \<times> WordInfo) list \<Rightarrow> (string \<times> WordInfo) list" where
  "add_occurrence w wordIndex at ws =
     (case map_of ws w of
        Some wordInfo \<Rightarrow>
          map (\<lambda>(k, wi). if k = w
                 then (k, wi \<lparr> indexes := indexes wi @ [wordIndex],
                              sourceIndexes := sourceIndexes wi @ [at] \<rparr>)
                 else (k, wi)) ws
      | None \<Rightarrow> ws @ [(w, \<lparr> word = w, indexes = [wordIndex], sourceIndexes = [at] \<rparr>)])"

text \<open>
  One round of the loop of lines 220-269 for the match \<open>(match[0], match.index)\<close>; the state
  is \<open>wordIndex\<close> and the \<open>TextInfo\<close> under construction.
\<close>

definition match_step :: "tokenizer \<Rightarrow> string \<times> nat \<Rightarrow> nat \<times> TextInfo \<Rightarrow> nat \<times> TextInfo" where
  "match_step t m st =
     (let (w0, at) = m; (wordIndex, ti) = st;
          stemmed = (case t_stemming t of None \<Rightarrow> Some w0 | Some f \<Rightarrow> f w0 (t_locale t))
      in case stemmed of
           None \<Rightarrow> (wordIndex, ti \<lparr> ignored := push_unique (ignored ti) w0 \<rparr>)
         | Some w1 \<Rightarrow>
             let w = t_lower t w1 in
             if int (length w) < t_minLength t \<or> w \<in> set (t_blacklist t) then
               if w \<notin> set (t_whitelist t)
               then (wordIndex, ti \<lparr> ignored := push_unique (ignored ti) w \<rparr>)
               else (Suc wordIndex, ti \<lparr> words := add_occurrence w wordIndex at (words ti) \<rparr>)
             else
               let w' = (if int (length w) > t_maxLength t then slice0 w (t_maxLength t) else w)
               in (Suc wordIndex, ti \<lparr> words := add_occurrence w' wordIndex at (words ti) \<rparr>))"

definition match_loop :: "tokenizer \<Rightarrow> (string \<times> nat) list \<Rightarrow> nat \<times> TextInfo \<Rightarrow> nat \<times> TextInfo" where
  "match_loop t ms st = fold (match_step t) ms st"

text \<open>Line 158: \<open>options.locale || 'en'\<close>.\<close>

definition effective_locale :: "TextInfoOptions \<Rightarrow> string" where
  "effective_locale options =
     (case o_locale options of None \<Rightarrow> ''en'' | Some l \<Rightarrow> if l = [] then ''en'' else l)"

text \<open>
  Lines 160-180: the pattern of the locale unless the options give one, with the escaped
  \<open>includeChars\<close> spliced in; the assertion of line 168 fails on a pattern without \<open>[\<close>.  The
  loop of lines 174-179 resumes its search one character into the text it has inserted, so
  with a \<open>[\<close> among the \<open>includeChars\<close> it finds the \<open>[\<close> it has just inserted, again and
  again, and never ends (\<^term>\<open>None\<close>).
\<close>

definition effective_pattern :: "TextInfoOptions \<Rightarrow> (error + string) option" where
  "effective_pattern options =
     (let pattern = (case o_pattern options of
                       Some p \<Rightarrow> p
                     | None \<Rightarrow> ls_pattern (locales_get (effective_locale options)))
      in case o_includeChars options of
           None \<Rightarrow> Some (Inr pattern)
         | Some inc \<Rightarrow>
             if inc = [] then Some (Inr pattern)
             else if indexOf CHR ''['' pattern < 0 then Some (Inl AssertionError)
             else if CHR ''['' \<in> set inc then None
             else Some (Inr (splice_after_brackets (escape_chars inc) pattern)))"

definition effective_flags :: "TextInfoOptions \<Rightarrow> string" where
  "effective_flags options =
     (case o_flags options of
        Some f \<Rightarrow> f
      | None \<Rightarrow> ls_flags (locales_get (effective_locale options)))"

text \<open>Lines 186-192: lengths, blacklist (with the stoplist of the locale on request), whitelist.\<close>

definition tokenizer_of :: "js_env \<Rightarrow> TextInfoOptions \<Rightarrow> tokenizer" where
  "tokenizer_of env options =
     (let loc = effective_locale options;
          blacklist = (case o_blacklist options of Some b \<Rightarrow> b | None \<Rightarrow> [])
      in \<lparr> t_locale = loc,
           t_stemming = o_stemming options,
           t_lower = toLocaleLowerCase env loc,
           t_minLength = (case o_minLength options of Some n \<Rightarrow> n | None \<Rightarrow> 1),
           t_maxLength = (case o_maxLength options of Some n \<Rightarrow> n | None \<Rightarrow> 25),
           t_blacklist = (case ls_stoplist (locales_get loc) of
                            Some sl \<Rightarrow> if o_useStoplist options = Some True then blacklist @ sl
                                       else blacklist
                          | None \<Rightarrow> blacklist),
           t_whitelist = (case o_whitelist options of Some w \<Rightarrow> w | None \<Rightarrow> []) \<rparr>)"

definition empty_TextInfo :: "TextInfoOptions \<Rightarrow> TextInfo" where
  "empty_TextInfo options = \<lparr> ti_locale = effective_locale options, words = [], ignored = [] \<rparr>"

text \<open>
  Lines 196-201: \<open>null\<close> and \<open>undefined\<close> end the constructor (\<^term>\<open>None\<close>); otherwise the
  \<open>prepare\<close> callback, if any, produces the text.  A text that is neither a string nor \<open>null\<close>
  and meets no \<open>prepare\<close> callback reaches \<open>unidecode\<close> and \<open>text.replace\<close>, which a non-string
  does not have: a \<open>TypeError\<close>.
\<close>

definition prepare_text :: "TextInfoOptions \<Rightarrow> text_value \<Rightarrow> (error + string) option" where
  "prepare_text options text =
     (case text of
        TNull \<Rightarrow> None
      | _ \<Rightarrow>
          (case o_prepare options of
             Some f \<Rightarrow>
               Some (Inr (f text (effective_locale options)
                  (CHR 0x22 # (case o_includeChars options of None \<Rightarrow> [] | Some inc \<Rightarrow> inc))))
           | None \<Rightarrow> (case text of TStr s \<Rightarrow> Some (Inr s) | _ \<Rightarrow> Some (Inl TypeError))))"

text \<open>
  The constructor (lines 156-270).  The result is \<^term>\<open>None\<close> when a loop of the
  constructor never ends, \<open>Some (Inl e)\<close> when it throws and \<open>Some (Inr ti)\<close> for the object built.
\<close>

definition TextInfo_new :: "js_env \<Rightarrow> text_value \<Rightarrow> TextInfoOptions \<Rightarrow> (error + TextInfo) option" where
  "TextInfo_new env text options =
     (case effective_pattern options of
        None \<Rightarrow> None
      | Some (Inl e) \<Rightarrow> Some (Inl e)
      | Some (Inr pattern) \<Rightarrow>
          if \<not> regexp_ok env pattern (effective_flags options) then Some (Inl SyntaxError)
          else
            (case prepare_text options text of
               None \<Rightarrow> Some (Inr (empty_TextInfo options))
             | Some (Inl e) \<Rightarrow> Some (Inl e)
             | Some (Inr text1) \<Rightarrow>
                 (case safe_unidecode (unidecode env) text1 of
                    None \<Rightarrow> None
                  | Some text2 \<Rightarrow>
                      (case regexp_exec_all env pattern (effective_flags options)
                              (filter (\<lambda>c. c \<noteq> CHR 0x27) text2) of
                         None \<Rightarrow> None
                       | Some ms \<Rightarrow>
                           Some (Inr (snd (match_loop (tokenizer_of env options) ms
                                             (0, empty_TextInfo options))))))))"

subsection \<open>An environment for ASCII text\<close>

text \<open>
  For evaluating examples: on ASCII text \<open>unidecode\<close> changes nothing, lower-casing maps
  \<open>A-Z\<close> to \<open>a-z\<close>, and the two patterns the index ever builds, \<open>[A-Za-z0-9'']+\<close> and (for
  queries) \<open>[\*\?A-Za-z0-9'']+\<close>, both with flags \<open>gmi\<close>, match the maximal runs of their
  character class from left to right.  These two are the only regular expressions this
  environment accepts.
\<close>

definition is_alnum :: "char \<Rightarrow> bool" where
  "is_alnum c \<longleftrightarrow>
     (let n = (of_char c :: nat) in (48 \<le> n \<and> n \<le> 57) \<or> (65 \<le> n \<and> n \<le> 90) \<or> (97 \<le> n \<and> n \<le> 122))"

function scan_runs :: "(char \<Rightarrow> bool) \<Rightarrow> nat \<Rightarrow> string \<Rightarrow> (string \<times> nat) list" where
  "scan_runs p i [] = []"
| "scan_runs p i (c # cs) =
     (if p c
      then (c # takeWhile p cs, i) # scan_runs p (Suc i + length (takeWhile p cs)) (dropWhile p cs)
      else scan_runs p (Suc i) cs)"
  by pat_completeness auto
termination
  by (relation "measure (\<lambda>(p, i, s). length s)") (auto simp: length_dropWhile_le less_Suc_eq_le)

definition ascii_exec_all :: "string \<Rightarrow> string \<Rightarrow> string \<Rightarrow> (string \<times> nat) list option" where
  "ascii_exec_all pattern flags text =
     (if flags = ''gmi'' \<and> pattern = ''[A-Za-z0-9'' @ [CHR 0x27] @ '']+''
      then Some (scan_runs (\<lambda>c. is_alnum c \<or> c = CHR 0x27) 0 text)
      else if flags = ''gmi'' \<and> pattern = ''['' @ [CHR 0x5C] @ ''*'' @ [CHR 0x5C] @ ''?A-Za-z0-9'' @ [CHR 0x27] @ '']+''
      then Some (scan_runs (\<lambda>c. is_alnum c \<or> c \<in> set ''*?'' \<or> c = CHR 0x27) 0 text)
      else None)"

definition ascii_lower :: "string \<Rightarrow> string" where
  "ascii_lower s =
     map (\<lambda>c. let n = (of_char c :: nat) in if 65 \<le> n \<and> n \<le> 90 then char_of (n + 32) else c) s"

definition string_members :: "string list" where
  "string_members =
     [''constructor'', ''toString'', ''valueOf'', ''hasOwnProperty'', ''isPrototypeOf'',
      ''propertyIsEnumerable'', ''toLocaleString'', ''__proto__'', ''__defineGetter__'',
      ''__defineSetter__'', ''__lookupGetter__'', ''__lookupSetter__'', ''at'', ''charAt'',
      ''charCodeAt'', ''codePointAt'', ''concat'', ''endsWith'', ''includes'', ''indexOf'',
      ''lastIndexOf'', ''localeCompare'', ''match'', ''matchAll'', ''normalize'', ''padEnd'',
      ''padStart'', ''repeat'', ''replace'', ''replaceAll'', ''search'', ''slice'', ''split'',
      ''startsWith'', ''substring'', ''substr'', ''toLocaleLowerCase'', ''toLocaleUpperCase'',
      ''toLowerCase'', ''toUpperCase'', ''trim'', ''trimStart'', ''trimEnd'', ''trimLeft'',
      ''trimRight'', ''anchor'', ''big'', ''blink'', ''bold'', ''fixed'', ''fontcolor'', ''fontsize'',
      ''italics'', ''link'', ''small'', ''strike'', ''sub'', ''sup'', ''isWellFormed'',
      ''toWellFormed'']"

definition ascii_env :: js_env where
  "ascii_env = \<lparr> unidecode = (\<lambda>s. s), regexp_exec_all = ascii_exec_all,
                 regexp_ok = (\<lambda>pattern flags. ascii_exec_all pattern flags [] \<noteq> None),
                 toLocaleLowerCase = (\<lambda>loc. ascii_lower),
                 string_member = (\<lambda>k. k \<in> set string_members) \<rparr>"

definition plain_options :: TextInfoOptions where
  "plain_options =
     \<lparr> o_locale = None, o_pattern = None, o_includeChars = None, o_flags = None,
       o_prepare = None, o_stemming = None, o_minLength = None, o_maxLength = None,
       o_blacklist = None, o_whitelist = None, o_useStoplist = None \<rparr>"

section \<open>The full-text index\<close>

record FullTextConfig =
  c_prepare :: "(text_value \<Rightarrow> string \<Rightarrow> string \<Rightarrow> string) option"
  c_transform :: "(string \<Rightarrow> string \<Rightarrow> string option) option"
  c_blacklist :: "string list option"
  c_useStoplist :: "bool option"
  c_whitelist :: "string list option"
  c_minLength :: "int option"
  c_maxLength :: "int option"

text \<open>
  \<open>key\<close>, \<open>textLocale\<close> and \<open>textLocaleKey\<close> are fields of the base class \<open>DataIndex\<close>; an
  index without a locale key has \<open>textLocaleKey = undefined\<close>.
\<close>

record FullTextIndex =
  key :: string
  textLocale :: string
  textLocaleKey :: "string option"
  config :: FullTextConfig

text \<open>\<open>getTextInfo(val, locale)\<close> (lines 388-399).\<close>

definition getTextInfo :: "js_env \<Rightarrow> FullTextIndex \<Rightarrow> text_value \<Rightarrow> string option \<Rightarrow> (error + TextInfo) option" where
  "getTextInfo env ix val loc =
     TextInfo_new env val
       \<lparr> o_locale = Some (case loc of Some l \<Rightarrow> l | None \<Rightarrow> textLocale ix),
         o_pattern = None, o_includeChars = None, o_flags = None,
         o_prepare = c_prepare (config ix),
         o_stemming = c_transform (config ix),
         o_minLength = c_minLength (config ix),
         o_maxLength = c_maxLength (config ix),
         o_blacklist = c_blacklist (config ix),
         o_whitelist = c_whitelist (config ix),
         o_useStoplist = c_useStoplist (config ix) \<rparr>"

subsection \<open>Record values\<close>

text \<open>
  A property value is \<open>undefined\<close>, \<open>null\<close>, a string, an array of strings or something else
  (a number, a function, an object).  A record value is \<open>null\<close> or \<open>undefined\<close>, a string
  primitive, or an object, given by its property resolution: \<open>f k = Some v\<close> when \<open>k in obj\<close>
  with \<open>obj[k] = v\<close> (own or inherited), \<open>f k = None\<close> when \<open>k\<close> is not a property.
\<close>

datatype prop_value = PUndefined | PNull | PStr string | PArr "string list" | POther

datatype record_value = RNull | RUndefined | RStr string | RObj "string \<Rightarrow> prop_value option"

definition text_of_prop :: "prop_value \<Rightarrow> text_value" where
  "text_of_prop p =
     (case p of PUndefined \<Rightarrow> TNull | PNull \<Rightarrow> TNull | PStr s \<Rightarrow> TStr s
      | PArr xs \<Rightarrow> TOther | POther \<Rightarrow> TOther)"

section \<open>Index maintenance: \<open>handleRecordUpdate\<close> (lines 481-551)\<close>

text \<open>
  Lines 482-483 and 488-493: the text of a record value, \<open>null\<close> unless the value is an object
  with the key; an array is joined with single spaces.
\<close>

definition update_text :: "FullTextIndex \<Rightarrow> record_value \<Rightarrow> text_value" where
  "update_text ix v =
     (case v of
        RObj f \<Rightarrow>
          (case f (key ix) of
             None \<Rightarrow> TNull
           | Some (PArr xs) \<Rightarrow> TStr (join '' '' xs)
           | Some p \<Rightarrow> text_of_prop p)
      | _ \<Rightarrow> TNull)"

text \<open>
  \<open>value[k]\<close> on a value other than \<open>null\<close> and \<open>undefined\<close>; \<^term>\<open>None\<close> when \<open>k\<close> is not a
  property.  A string primitive has its characters under the canonical index names, \<open>length\<close>,
  and the inherited members.
\<close>

definition string_property :: "js_env \<Rightarrow> string \<Rightarrow> string \<Rightarrow> prop_value option" where
  "string_property env s k =
     (case find (\<lambda>i. number_toString i = k) [0..<length s] of
        Some i \<Rightarrow> Some (PStr [s ! i])
      | None \<Rightarrow> if k = ''length'' \<or> string_member env k then Some POther else None)"

definition get_property :: "js_env \<Rightarrow> record_value \<Rightarrow> string \<Rightarrow> prop_value option" where
  "get_property env v k =
     (case v of RObj f \<Rightarrow> f k | RStr s \<Rightarrow> string_property env s k | _ \<Rightarrow> None)"

text \<open>
  Lines 485-486 and 406: \<open>value?.[textLocaleKey] ?? textLocale\<close>; a \<open>textLocaleKey\<close> that is
  \<open>undefined\<close> reads the property named \<open>undefined\<close>.  A locale that is not a string has no
  \<open>indexOf\<close> for the locale registry to call (\<^term>\<open>None\<close>, a \<open>TypeError\<close> in the callers).
\<close>

definition locale_key :: "FullTextIndex \<Rightarrow> string" where
  "locale_key ix = (case textLocaleKey ix of None \<Rightarrow> ''undefined'' | Some k \<Rightarrow> k)"

definition value_locale :: "js_env \<Rightarrow> FullTextIndex \<Rightarrow> record_value \<Rightarrow> string option" where
  "value_locale env ix v =
     (case get_property env v (locale_key ix) of
        None \<Rightarrow> Some (textLocale ix)
      | Some PUndefined \<Rightarrow> Some (textLocale ix)
      | Some PNull \<Rightarrow> Some (textLocale ix)
      | Some (PStr l) \<Rightarrow> Some l
      | Some _ \<Rightarrow> None)"

text \<open>Line 513: \<open>oldInfo.indexes.some((index, i) => newInfo.indexes[i] !== index)\<close>.\<close>

fun some_differs :: "nat list \<Rightarrow> nat list \<Rightarrow> bool" where
  "some_differs [] new = False"
| "some_differs (x # xs) [] = True"
| "some_differs (x # xs) (y # ys) = (y \<noteq> x \<or> some_differs xs ys)"

definition word_changed :: "TextInfo \<Rightarrow> TextInfo \<Rightarrow> string \<Rightarrow> bool" where
  "word_changed oldTextInfo newTextInfo w =
     (case (getWordInfo oldTextInfo w, getWordInfo newTextInfo w) of
        (Some oldInfo, Some newInfo) \<Rightarrow>
          occurs oldInfo \<noteq> occurs newInfo \<or> some_differs (indexes oldInfo) (indexes newInfo)
      | _ \<Rightarrow> False)"

definition changed_words :: "TextInfo \<Rightarrow> TextInfo \<Rightarrow> string list" where
  "changed_words oldTextInfo newTextInfo =
     filter (word_changed oldTextInfo newTextInfo)
       (filter (\<lambda>w. w \<in> set (toArray newTextInfo)) (toArray oldTextInfo))"

definition removed_words :: "TextInfo \<Rightarrow> TextInfo \<Rightarrow> string list" where
  "removed_words oldTextInfo newTextInfo =
     filter (\<lambda>w. w \<notin> set (toArray newTextInfo)) (toArray oldTextInfo)
       @ changed_words oldTextInfo newTextInfo"

definition added_words :: "TextInfo \<Rightarrow> TextInfo \<Rightarrow> string list" where
  "added_words oldTextInfo newTextInfo =
     filter (\<lambda>w. w \<notin> set (toArray oldTextInfo)) (toArray newTextInfo)
       @ changed_words oldTextInfo newTextInfo"

text \<open>
  The calls of \<open>super.handleRecordUpdate\<close>: a removal (line 524) names the path and the word, an
  addition (line 547) the path, the word that replaces the text in the copy of the new value,
  and the \<open>_occurs_\<close> metadata.
\<close>

datatype substrate_update =
    RemoveWord string string
  | AddWord string string string

text \<open>
  Lines 527-549.  \<open>getWordInfo\<close> of a word without an entry is \<open>undefined\<close>, and reading its
  \<open>indexes\<close> throws; the calls made before that stay made.
\<close>

fun add_updates :: "string \<Rightarrow> TextInfo \<Rightarrow> string list \<Rightarrow> substrate_update list \<times> error option" where
  "add_updates p newTextInfo [] = ([], None)"
| "add_updates p newTextInfo (w # ws) =
     (case getWordInfo newTextInfo w of
        None \<Rightarrow> ([], Some TypeError)
      | Some wordInfo \<Rightarrow>
          (let (ups, e) = add_updates p newTextInfo ws
           in (AddWord p w (encode_occurs (indexes wordInfo)) # ups, e)))"

text \<open>
  \<open>Promise.all\<close> over the outcomes of the substrate calls: fulfilled when every call is, and
  rejected otherwise (with the first rejection in the order of the calls; which rejection
  comes first in time is the substrate's matter).
\<close>

fun promise_all :: "(error + unit) list \<Rightarrow> error + unit" where
  "promise_all [] = Inr ()"
| "promise_all (Inl e # rs) = Inl e"
| "promise_all (Inr u # rs) = promise_all rs"

text \<open>
  The whole call.  The substrate is the function \<open>sub\<close> from a call to the outcome of its
  promise.  The result is \<^term>\<open>None\<close> when tokenizing never ends, and otherwise the outcome
  of the call with the list of substrate calls it made.
\<close>

definition handleRecordUpdate ::
  "js_env \<Rightarrow> FullTextIndex \<Rightarrow> (substrate_update \<Rightarrow> error + unit) \<Rightarrow> string \<Rightarrow> record_value \<Rightarrow> record_value
     \<Rightarrow> ((error + unit) \<times> substrate_update list) option" where
  "handleRecordUpdate env ix sub p oldValue newValue =
     (case (value_locale env ix oldValue, value_locale env ix newValue) of
        (Some oldLocale, Some newLocale) \<Rightarrow>
          (case getTextInfo env ix (update_text ix oldValue) (Some oldLocale) of
             None \<Rightarrow> None
           | Some (Inl e) \<Rightarrow> Some (Inl e, [])
           | Some (Inr oldTextInfo) \<Rightarrow>
               (case getTextInfo env ix (update_text ix newValue) (Some newLocale) of
                  None \<Rightarrow> None
                | Some (Inl e) \<Rightarrow> Some (Inl e, [])
                | Some (Inr newTextInfo) \<Rightarrow>
                    (let removed = removed_words oldTextInfo newTextInfo;
                         added = added_words oldTextInfo newTextInfo;
                         (adds, e) = add_updates p newTextInfo added;
                         ups = map (RemoveWord p) removed @ adds
                     in case e of
                          Some err \<Rightarrow> Some (Inl err, ups)
                        | None \<Rightarrow> Some (promise_all (map sub ups), ups))))
      | _ \<Rightarrow> Some (Inl TypeError, []))"

subsection \<open>An example index\<close>

definition plain_config :: FullTextConfig where
  "plain_config =
     \<lparr> c_prepare = None, c_transform = None, c_blacklist = None, c_useStoplist = None,
       c_whitelist = None, c_minLength = None, c_maxLength = None \<rparr>"

definition example_index :: FullTextIndex where
  "example_index = \<lparr> key = ''text'', textLocale = ''en'', textLocaleKey = None, config = plain_config \<rparr>"

definition text_record :: "string \<Rightarrow> record_value" where
  "text_record t = RObj (\<lambda>k. if k = ''text'' then Some (PStr t) else None)"

section \<open>Queries\<close>

subsection \<open>Result sets, hints and the substrate\<close>

text \<open>
  A match carries the record path and the \<open>_occurs_\<close> metadata of the posting it comes from.
  The phrase check overwrites that string in place with the array it decodes, so the field
  holds either.  A result set is the array of matches with its \<open>filterKey\<close> and \<open>hints\<close>; the
  \<open>stats\<close> block (timings for diagnosis) is left out.
\<close>

datatype occurs_value = OccursString string | OccursArray "jsnum list"

record IndexQueryResult =
  path :: string
  metadata_occurs :: occurs_value

datatype hint = ignoredWord string | missingWord string

record IndexQueryResults =
  items :: "IndexQueryResult list"
  filterKey :: "string option"
  hints :: "hint list"

text \<open>
  An entry of the word-check vector of the \<open>!contains\<close> path: the word itself or the regular
  expression built from it (source and flags).
\<close>

datatype word_check = CheckWord string | CheckRegExp string string

text \<open>
  What the index consumes from its base class \<open>DataIndex\<close>: the cache read \<open>cache(op, val)\<close>
  (\<^term>\<open>None\<close> on a miss), \<open>count(op, word)\<close>, \<open>query(op, word, {filter})\<close> and the scan with
  a blacklisting operator, which is determined by the word-check vector its callback closes
  over.  All cache reads of one call happen before its first \<open>await\<close>, so they see the cache
  as it was at the call; cache writes are recorded among the calls, with the result set as it
  is when it is written.
\<close>

record substrate =
  s_cache :: "string \<Rightarrow> string \<Rightarrow> IndexQueryResults option"
  s_count :: "string \<Rightarrow> string \<Rightarrow> nat"
  s_query :: "string \<Rightarrow> string \<Rightarrow> IndexQueryResults option \<Rightarrow> IndexQueryResults"
  s_scan :: "word_check list \<Rightarrow> IndexQueryResults"

datatype substrate_call =
    CacheRead string string
  | CacheWrite string string IndexQueryResults
  | CountCall string string
  | QueryCall string string "IndexQueryResults option"
  | ScanCall "word_check list"

text \<open>
  The outcome of a query: the error thrown or the result set returned, with the calls made to
  the substrate.  \<^term>\<open>None\<close> stands for a call that does not come back: a loop that never
  ends, or recursion that never bottoms out.
\<close>

type_synonym outcome = "(error + IndexQueryResults) \<times> substrate_call list"

record FullTextContainsQueryOptions =
  q_locale :: "string option"
  q_phrase :: "bool option"
  q_minimumWildcardWordLength :: "int option"

text \<open>The default value of the parameter \<open>options\<close> of \<open>contains\<close> (lines 636-640).\<close>

definition default_query_options :: FullTextContainsQueryOptions where
  "default_query_options =
     \<lparr> q_locale = None, q_phrase = Some False, q_minimumWildcardWordLength = Some 2 \<rparr>"

text \<open>
  The parts of a query that the index itself does not fix: the environment of the tokenizer,
  the index, the substrate, and \<open>Array.prototype.sort\<close> under the comparator of line 754,
  \<open>a.length < b.length ? -1 : 1\<close>, which never answers \<open>0\<close>: the order it leaves sets of equal
  length in is the engine's choice.
\<close>

record query_context =
  qc_env :: js_env
  qc_index :: FullTextIndex
  qc_substrate :: substrate
  qc_sort_by_length :: "IndexQueryResults list \<Rightarrow> IndexQueryResults list"

definition validOperators :: "string list" where
  "validOperators = [''fulltext:contains'', ''fulltext:!contains'']"

subsection \<open>String helpers\<close>

text \<open>\<open>s.includes(sub)\<close>.\<close>

fun includes_str :: "string \<Rightarrow> string \<Rightarrow> bool" where
  "includes_str sub [] = (sub = [])"
| "includes_str sub (c # cs) = (take (length sub) (c # cs) = sub \<or> includes_str sub cs)"

text \<open>
  \<open>s.split(sep)\<close> for a non-empty separator; \<open>cur\<close> is the field being read.
\<close>

function split_at :: "string \<Rightarrow> string \<Rightarrow> string \<Rightarrow> string list" where
  "split_at sep cur [] = [cur]"
| "split_at sep cur (c # cs) =
     (if take (length sep) (c # cs) = sep
      then cur # split_at sep [] (drop (length sep - 1) cs)
      else split_at sep (cur @ [c]) cs)"
  by pat_completeness auto
termination
  by (relation "measure (\<lambda>(sep, cur, s). length s)") auto

definition split_str :: "string \<Rightarrow> string \<Rightarrow> string list" where
  "split_str sep s = split_at sep [] s"

subsection \<open>Query tokenization (\<open>getTextInfo\<close> of \<open>contains\<close>, lines 655-693)\<close>

definition is_wildcard_only :: "string \<Rightarrow> bool" where
  "is_wildcard_only w \<longleftrightarrow> w \<noteq> [] \<and> list_all (\<lambda>c. c = CHR ''*'' \<or> c = CHR ''?'') w"

definition map_delete :: "string \<Rightarrow> (string \<times> WordInfo) list \<Rightarrow> (string \<times> WordInfo) list" where
  "map_delete w ws = filter (\<lambda>e. fst e \<noteq> w) ws"

text \<open>
  Lines 673-678.  \<open>words\<close> is the array \<open>toArray()\<close> returned before the loop and is never
  changed by it; the body pushes onto \<open>info.ignored\<close> and deletes from \<open>info.words\<close>.
\<close>

partial_function (option) wildcard_only_loop :: "string list \<Rightarrow> TextInfo \<Rightarrow> TextInfo option" where
  "wildcard_only_loop ws info =
     (case find is_wildcard_only ws of
        None \<Rightarrow> Some info
      | Some w \<Rightarrow>
          wildcard_only_loop ws
            (info \<lparr> ignored := ignored info @ [w], words := map_delete w (words info) \<rparr>))"

declare wildcard_only_loop.simps [code]

text \<open>Lines 680-691.\<close>

definition short_wildcard :: "int \<Rightarrow> string \<Rightarrow> bool" where
  "short_wildcard m w \<longleftrightarrow> indexOf CHR ''*'' w > 0 \<and> indexOf CHR ''*'' w < m"

definition prune_step :: "int \<Rightarrow> string \<Rightarrow> TextInfo \<Rightarrow> TextInfo" where
  "prune_step m w info =
     (if short_wildcard m w
      then info \<lparr> ignored := ignored info @ [w], words := map_delete w (words info) \<rparr>
      else info)"

definition prune_wildcards :: "FullTextContainsQueryOptions \<Rightarrow> string list \<Rightarrow> TextInfo \<Rightarrow> TextInfo" where
  "prune_wildcards options ws info =
     (case q_minimumWildcardWordLength options of
        None \<Rightarrow> info
      | Some m \<Rightarrow> if m > 0 then fold (prune_step m) ws info else info)"

definition query_TextInfoOptions :: "FullTextIndex \<Rightarrow> FullTextContainsQueryOptions \<Rightarrow> TextInfoOptions" where
  "query_TextInfoOptions ix options =
     \<lparr> o_locale = Some (case q_locale options of
                         None \<Rightarrow> textLocale ix
                       | Some l \<Rightarrow> if l = [] then textLocale ix else l),
       o_pattern = None, o_includeChars = Some ''*?'', o_flags = None,
       o_prepare = c_prepare (config ix),
       o_stemming = c_transform (config ix),
       o_minLength = c_minLength (config ix),
       o_maxLength = c_maxLength (config ix),
       o_blacklist = c_blacklist (config ix),
       o_whitelist = c_whitelist (config ix),
       o_useStoplist = c_useStoplist (config ix) \<rparr>"

definition query_getTextInfo ::
  "js_env \<Rightarrow> FullTextIndex \<Rightarrow> FullTextContainsQueryOptions \<Rightarrow> string \<Rightarrow> (error + TextInfo) option" where
  "query_getTextInfo env ix options text =
     (case TextInfo_new env (TStr text) (query_TextInfoOptions ix options) of
        None \<Rightarrow> None
      | Some (Inl e) \<Rightarrow> Some (Inl e)
      | Some (Inr info) \<Rightarrow>
          (case wildcard_only_loop (toArray info) info of
             None \<Rightarrow> None
           | Some info1 \<Rightarrow> Some (Inr (prune_wildcards options (toArray info) info1))))"

subsection \<open>The phrase check (lines 913-955)\<close>

text \<open>
  Line 926 on the match of one word: the \<open>_occurs_\<close> string of the first match with the path is
  replaced by the decoded array.  A word without a match for the path gives \<open>undefined\<close>, whose
  \<open>metadata\<close> cannot be read, and a value decoded before is an array, which has no \<open>split\<close>:
  both are \<open>TypeError\<close>s.
\<close>

fun decode_match :: "string \<Rightarrow> IndexQueryResult list \<Rightarrow> error + (jsnum list \<times> IndexQueryResult list)" where
  "decode_match p [] = Inl TypeError"
| "decode_match p (r # rs) =
     (if path r = p then
        (case metadata_occurs r of
           OccursArray a \<Rightarrow> Inl TypeError
         | OccursString s \<Rightarrow>
             Inr (decode_occurs s, r \<lparr> metadata_occurs := OccursArray (decode_occurs s) \<rparr> # rs))
      else (case decode_match p rs of
              Inl e \<Rightarrow> Inl e
            | Inr (d, rs') \<Rightarrow> Inr (d, r # rs')))"

text \<open>
  Lines 921-927 over \<open>resultsPerWord\<close>, an array with a slot per query word in the original
  word order; a slot never assigned is a hole (\<^term>\<open>None\<close>), which \<open>map\<close> and \<open>forEach\<close> skip.
  The result is the decoded arrays per slot and the result sets after the overwriting.
\<close>

fun decode_all ::
  "string \<Rightarrow> IndexQueryResults option list
     \<Rightarrow> error + (jsnum list option list \<times> IndexQueryResults option list)" where
  "decode_all p [] = Inr ([], [])"
| "decode_all p (None # sets) =
     (case decode_all p sets of
        Inl e \<Rightarrow> Inl e
      | Inr (ds, sets') \<Rightarrow> Inr (None # ds, None # sets'))"
| "decode_all p (Some rs # sets) =
     (case decode_match p (items rs) of
        Inl e \<Rightarrow> Inl e
      | Inr (d, its) \<Rightarrow>
          (case decode_all p sets of
             Inl e \<Rightarrow> Inl e
           | Inr (ds, sets') \<Rightarrow> Inr (Some d # ds, Some (rs \<lparr> items := its \<rparr>) # sets')))"

text \<open>\<open>prevWordIndex + 1\<close> on numbers: \<open>NaN + 1\<close> is \<open>NaN\<close>.\<close>

definition js_succ :: "jsnum \<Rightarrow> jsnum" where
  "js_succ x = map_option (\<lambda>n. n + 1) x"

text \<open>
  \<open>check(wordMatchIndex, prevWordIndex)\<close> with a number for \<open>prevWordIndex\<close> (lines 938-947).
  \<open>Array.prototype.includes\<close> compares with SameValueZero, under which \<open>NaN\<close> equals \<open>NaN\<close>:
  equality of \<^typ>\<open>jsnum\<close>.  Reading \<open>wordMatches[i]\<close> past the end or at a hole gives
  \<open>undefined\<close>, whose \<open>metadata\<close> cannot be read.
\<close>

function check_next :: "jsnum list option list \<Rightarrow> nat \<Rightarrow> jsnum \<Rightarrow> error + bool" where
  "check_next wordMatches i prev =
     (if i < length wordMatches then
        (case wordMatches ! i of
           None \<Rightarrow> Inl TypeError
         | Some positions \<Rightarrow>
             if js_succ prev \<in> set positions then
               if i = length wordMatches - 1 then Inr True
               else check_next wordMatches (i + 1) (js_succ prev)
             else Inr False)
      else Inl TypeError)"
  by pat_completeness auto
termination
  by (relation "measure (\<lambda>(wm, i, prev). length wm - i)") auto

declare check_next.simps [simp del]

text \<open>The loop of lines 932-936 over the positions of the first word.\<close>

fun check_first :: "jsnum list option list \<Rightarrow> jsnum list \<Rightarrow> error + bool" where
  "check_first wordMatches [] = Inr False"
| "check_first wordMatches (s # ss) =
     (case check_next wordMatches 1 s of
        Inl e \<Rightarrow> Inl e
      | Inr found \<Rightarrow> if found then Inr True else check_first wordMatches ss)"

text \<open>\<open>check(0)\<close>.\<close>

definition check0 :: "jsnum list option list \<Rightarrow> error + bool" where
  "check0 wordMatches =
     (case wordMatches of
        [] \<Rightarrow> Inl TypeError
      | None # _ \<Rightarrow> Inl TypeError
      | Some positions # _ \<Rightarrow> check_first wordMatches positions)"

text \<open>
  The \<open>reduce\<close> of lines 917-953.  \<open>results\<close> is the result set of the word queried last, the
  same object as its slot \<open>k\<close> of \<open>resultsPerWord\<close>.  \<open>reduce\<close> visits the positions below the
  length the array had at the start; a match the callback keeps is that object, so the result
  shows it as the later rounds leave it.
\<close>

definition match_at :: "IndexQueryResults option list \<Rightarrow> nat \<Rightarrow> nat \<Rightarrow> IndexQueryResult option" where
  "match_at resultsPerWord k i =
     (if k < length resultsPerWord then
        (case resultsPerWord ! k of
           None \<Rightarrow> None
         | Some rs \<Rightarrow> if i < length (items rs) then Some (items rs ! i) else None)
      else None)"

fun phrase_loop ::
  "nat \<Rightarrow> nat list \<Rightarrow> IndexQueryResults option list \<Rightarrow> nat list
     \<Rightarrow> error + (nat list \<times> IndexQueryResults option list)" where
  "phrase_loop k [] resultsPerWord kept = Inr (kept, resultsPerWord)"
| "phrase_loop k (i # rest) resultsPerWord kept =
     (case match_at resultsPerWord k i of
        None \<Rightarrow> Inl TypeError
      | Some m \<Rightarrow>
          (case decode_all (path m) resultsPerWord of
             Inl e \<Rightarrow> Inl e
           | Inr (wordMatches, resultsPerWord') \<Rightarrow>
               (case check0 wordMatches of
                  Inl e \<Rightarrow> Inl e
                | Inr keep \<Rightarrow>
                    phrase_loop k rest resultsPerWord' (if keep then kept @ [i] else kept))))"

definition phrase_reduce :: "nat \<Rightarrow> IndexQueryResults option list \<Rightarrow> error + IndexQueryResult list" where
  "phrase_reduce k resultsPerWord =
     (case (if k < length resultsPerWord then resultsPerWord ! k else None) of
        None \<Rightarrow> Inl TypeError
      | Some rs \<Rightarrow>
          (case phrase_loop k [0..<length (items rs)] resultsPerWord [] of
             Inl e \<Rightarrow> Inl e
           | Inr (kept, resultsPerWord') \<Rightarrow>
               Inr (concat (map (\<lambda>i. case match_at resultsPerWord' k i of
                                        None \<Rightarrow> [] | Some m \<Rightarrow> [m]) kept))))"

subsection \<open>The three paths of \<open>contains\<close>\<close>

text \<open>
  Lines 706-712: the first set, followed by the matches of the later sets whose path is not
  there yet.
\<close>

fun merge_into :: "IndexQueryResult list \<Rightarrow> IndexQueryResult list \<Rightarrow> IndexQueryResult list" where
  "merge_into merged [] = merged"
| "merge_into merged (r # rs) =
     merge_into (if list_ex (\<lambda>m. path m = path r) merged then merged else merged @ [r]) rs"

text \<open>
  Modelled from the spec: \<open>IndexQueryResults.fromResults(results, filterKey)\<close> and the
  constructor of \<open>IndexQueryResults\<close> (the class is not among the sources): a result set of
  the given matches and filter key with an empty hints list.
\<close>

definition fromResults :: "IndexQueryResult list \<Rightarrow> string \<Rightarrow> IndexQueryResults" where
  "fromResults rs k = \<lparr> items = rs, filterKey = Some k, hints = [] \<rparr>"

text \<open>Lines 706-719 on the result sets of the branches.\<close>

definition or_merge :: "FullTextIndex \<Rightarrow> IndexQueryResults list \<Rightarrow> error + IndexQueryResults" where
  "or_merge ix resultSets =
     (case resultSets of
        [] \<Rightarrow> Inl TypeError
      | first # others \<Rightarrow>
          Inr ((fromResults (fold (\<lambda>rs merged. merge_into merged (items rs)) others (items first))
                  (key ix))
                \<lparr> hints := concat (map hints resultSets) \<rparr>))"

text \<open>
  Sub-queries started together and awaited with \<open>Promise.all\<close>: all of them run; the outcome
  is the list of their result sets, or the first error in the order of the list.
\<close>

fun run_queries :: "(string \<Rightarrow> outcome option) \<Rightarrow> string list \<Rightarrow> ((error + IndexQueryResults list) \<times> substrate_call list) option" where
  "run_queries q [] = Some (Inr [], [])"
| "run_queries q (v # vs) =
     (case q v of
        None \<Rightarrow> None
      | Some (r, calls) \<Rightarrow>
          (case run_queries q vs of
             None \<Rightarrow> None
           | Some (rs, calls') \<Rightarrow>
               Some ((case r of
                        Inl e \<Rightarrow> Inl e
                      | Inr x \<Rightarrow> (case rs of Inl e \<Rightarrow> Inl e | Inr xs \<Rightarrow> Inr (x # xs))),
                     calls @ calls')))"

definition or_query ::
  "query_context \<Rightarrow> (string \<Rightarrow> outcome option) \<Rightarrow> string \<Rightarrow> outcome option" where
  "or_query ctx q val =
     (case run_queries q (split_str '' OR '' val) of
        None \<Rightarrow> None
      | Some (Inl e, calls) \<Rightarrow> Some (Inl e, calls)
      | Some (Inr resultSets, calls) \<Rightarrow> Some (or_merge (qc_index ctx) resultSets, calls))"

text \<open>
  The regular expression \<open>/"(.+?)"/\<close> (line 724), leftmost match: a quote, one or more
  characters other than line terminators, as few as possible, and a quote.  The result is the
  text before the match, the phrase and the text after the match.
\<close>

definition is_line_terminator :: "char \<Rightarrow> bool" where
  "is_line_terminator c \<longleftrightarrow> c = CHR 0x0A \<or> c = CHR 0x0D"

fun find_phrase :: "string \<Rightarrow> string \<Rightarrow> (string \<times> string \<times> string) option" where
  "find_phrase pre [] = None"
| "find_phrase pre (x # xs) =
     (if x = CHR 0x22 then
        (case xs of
           [] \<Rightarrow> None
         | c # rest \<Rightarrow>
             if dropWhile (\<lambda>y. y \<noteq> CHR 0x22) rest \<noteq> [] \<and>
                list_all (\<lambda>y. \<not> is_line_terminator y) (c # takeWhile (\<lambda>y. y \<noteq> CHR 0x22) rest)
             then Some (pre, c # takeWhile (\<lambda>y. y \<noteq> CHR 0x22) rest,
                        tl (dropWhile (\<lambda>y. y \<noteq> CHR 0x22) rest))
             else find_phrase (pre @ [x]) xs)
      else find_phrase (pre @ [x]) xs)"

lemma find_phrase_shorter:
  "find_phrase pre s = Some (before, phrase, rest) \<Longrightarrow>
   length before + length rest < length pre + length s"
proof (induction pre s rule: find_phrase.induct)
  case (1 pre)
  then show ?case by simp
next
  case (2 pre x xs)
  let ?P = "\<lambda>y. y \<noteq> CHR 0x22"
  show ?case
  proof (cases "x = CHR 0x22")
    case False
    with "2.prems" have "find_phrase (pre @ [x]) xs = Some (before, phrase, rest)" by simp
    with "2.IH"(2)[OF False] show ?thesis by simp
  next
    case True
    show ?thesis
    proof (cases xs)
      case Nil
      with True "2.prems" show ?thesis by simp
    next
      case (Cons c ys)
      show ?thesis
      proof (cases "dropWhile ?P ys \<noteq> [] \<and> list_all (\<lambda>y. \<not> is_line_terminator y) (c # takeWhile ?P ys)")
        case yes: True
        with True Cons "2.prems" have "before = pre" "rest = tl (dropWhile ?P ys)" by auto
        moreover have "length (tl (dropWhile ?P ys)) \<le> length ys"
          using length_dropWhile_le[of ?P ys] by simp
        ultimately show ?thesis using Cons by simp
      next
        case no: False
        with True Cons "2.prems" have "find_phrase (pre @ [x]) xs = Some (before, phrase, rest)"
          by auto
        with "2.IH"(1)[OF True Cons] no show ?thesis by auto
      qed
    qed
  qed
qed

text \<open>The loop of lines 726-733: the phrases in order and what is left of \<open>val\<close>.\<close>

function extract_phrases :: "string \<Rightarrow> string list \<times> string" where
  "extract_phrases val =
     (case find_phrase [] val of
        None \<Rightarrow> ([], val)
      | Some (before, phrase, rest) \<Rightarrow>
          (let (phrases, val') = extract_phrases (before @ rest) in (phrase # phrases, val')))"
  by pat_completeness auto
termination
  by (relation "measure length") (auto dest: find_phrase_shorter)

declare extract_phrases.simps [simp del]

text \<open>Lines 754-768 on the result sets of the phrases and of the remaining words.\<close>

definition phrase_intersect :: "query_context \<Rightarrow> IndexQueryResults list \<Rightarrow> error + IndexQueryResults" where
  "phrase_intersect ctx resultSets =
     (case qc_sort_by_length ctx resultSets of
        [] \<Rightarrow> Inl TypeError
      | shortestSet # otherSets \<Rightarrow>
          Inr \<lparr> items = filter (\<lambda>m. list_all (\<lambda>other. list_ex (\<lambda>r. path r = path m) (items other)) otherSets)
                           (items shortestSet),
                filterKey = Some (key (qc_index ctx)),
                hints = concat (map hints (shortestSet # otherSets)) \<rparr>)"

definition phrase_query ::
  "query_context \<Rightarrow> (string \<Rightarrow> FullTextContainsQueryOptions \<Rightarrow> outcome option)
     \<Rightarrow> string \<Rightarrow> FullTextContainsQueryOptions \<Rightarrow> outcome option" where
  "phrase_query ctx q val options =
     (let (phrases, val') = extract_phrases val;
          phraseOptions = options \<lparr> q_phrase := Some True \<rparr>
      in case (if val' = [] then Some (Inr False)
               else map_option (map_sum id (\<lambda>info. wordCount info > 0))
                      (query_getTextInfo (qc_env ctx) (qc_index ctx) options val')) of
           None \<Rightarrow> None
         | Some (Inl e) \<Rightarrow>
             map_option (\<lambda>(r, calls). (Inl e, calls)) (run_queries (\<lambda>v. q v phraseOptions) phrases)
         | Some (Inr has_words) \<Rightarrow>
             (case run_queries (\<lambda>v. q v phraseOptions) phrases of
                None \<Rightarrow> None
              | Some (rs, calls) \<Rightarrow>
                  (case (if has_words then q val' options else Some (Inr \<lparr> items = [], filterKey = None, hints = [] \<rparr>, [])) of
                     None \<Rightarrow> None
                   | Some (r, calls') \<Rightarrow>
                       Some ((case rs of
                                Inl e \<Rightarrow> Inl e
                              | Inr sets \<Rightarrow>
                                  (case r of
                                     Inl e \<Rightarrow> Inl e
                                   | Inr rest \<Rightarrow>
                                       phrase_intersect ctx (if has_words then sets @ [rest] else sets))),
                             calls @ calls'))))"

text \<open>\<open>addIgnoredWordHints\<close> (lines 777-783).\<close>

definition addIgnoredWordHints :: "TextInfo \<Rightarrow> IndexQueryResults \<Rightarrow> IndexQueryResults" where
  "addIgnoredWordHints info rs = rs \<lparr> hints := hints rs @ map ignoredWord (ignored info) \<rparr>"

text \<open>
  Lines 831-832 and 886-887: \<open>~(~word.indexOf('*') || ~word.indexOf('?'))\<close> is the index of
  \<open>*\<close> when the word has one and the index of \<open>?\<close> otherwise.
\<close>

definition wildcardIndex :: "string \<Rightarrow> int" where
  "wildcardIndex w = (if indexOf CHR ''*'' w \<noteq> - 1 then indexOf CHR ''*'' w else indexOf CHR ''?'' w)"

definition wordOp :: "string \<Rightarrow> string" where
  "wordOp w = (if wildcardIndex w \<ge> 0 then ''like'' else ''=='')"

text \<open>Lines 798-805: the word-check vector of the \<open>!contains\<close> path.\<close>

definition wildcard_pattern :: "string \<Rightarrow> string" where
  "wildcard_pattern w =
     ''^'' @ concat (map (\<lambda>c. if c = CHR ''*'' then ''.*'' else if c = CHR ''?'' then ''.'' else [c]) w)
       @ ''$''"

definition wordCheck :: "string \<Rightarrow> word_check" where
  "wordCheck w =
     (if CHR ''*'' \<in> set w \<or> CHR ''?'' \<in> set w then CheckRegExp (wildcard_pattern w) ''i''
      else CheckWord w)"

text \<open>\<open>words.indexOf(word)\<close> for a word of the array.\<close>

fun index_of :: "string \<Rightarrow> string list \<Rightarrow> nat" where
  "index_of w [] = 0"
| "index_of w (x # xs) = (if x = w then 0 else Suc (index_of w xs))"

text \<open>
  \<open>nextWord\<close> (lines 897-908): the words in the order of their counts, each queried with the
  result set of the one before as filter, until a result set is empty or the words are used up.
  The result is the slot and the result set of the word queried last (nothing when there was no
  word), \<open>resultsPerWord\<close> and the queries made.
\<close>

fun nextWord ::
  "substrate \<Rightarrow> string list \<Rightarrow> string list \<Rightarrow> (nat \<times> IndexQueryResults) option
     \<Rightarrow> IndexQueryResults option list
     \<Rightarrow> (nat \<times> IndexQueryResults) option \<times> IndexQueryResults option list \<times> substrate_call list" where
  "nextWord sub ws [] results resultsPerWord = (results, resultsPerWord, [])"
| "nextWord sub ws (w # rest) results resultsPerWord =
     (let fr = s_query sub (wordOp w) w (map_option snd results);
          call = QueryCall (wordOp w) w (map_option snd results);
          resultsPerWord' = resultsPerWord [index_of w ws := Some fr]
      in if items fr = [] \<or> rest = [] then (Some (index_of w ws, fr), resultsPerWord', [call])
         else (let (r, rpw, calls) = nextWord sub ws rest (Some (index_of w ws, fr)) resultsPerWord'
               in (r, rpw, call # calls)))"

text \<open>
  The path of a query without \<open>OR\<close> and without quotes (lines 772-965), after the cache
  has missed.
\<close>

definition bare_words ::
  "query_context \<Rightarrow> string \<Rightarrow> string \<Rightarrow> FullTextContainsQueryOptions \<Rightarrow> outcome option" where
  "bare_words ctx op val options =
     (let ix = qc_index ctx; sub = qc_substrate ctx in
      case query_getTextInfo (qc_env ctx) ix options val of
        None \<Rightarrow> None
      | Some (Inl e) \<Rightarrow> Some (Inl e, [])
      | Some (Inr info) \<Rightarrow>
          (let ws = toArray info in
           if ws = [] then Some (Inr (addIgnoredWordHints info (fromResults [] (key ix))), [])
           else if op = ''fulltext:!contains'' then
             (let wordChecks = map wordCheck ws;
                  rs = addIgnoredWordHints info ((s_scan sub wordChecks) \<lparr> filterKey := Some (key ix) \<rparr>)
              in Some (Inr rs, [ScanCall wordChecks, CacheWrite op val rs]))
           else
             (let countCalls = map (\<lambda>w. CountCall (wordOp w) w) ws;
                  counts = sort_key snd (map (\<lambda>w. (w, s_count sub (wordOp w) w)) ws)
              in if snd (hd counts) = 0 then
                   (let r0 = addIgnoredWordHints info (fromResults [] (key ix));
                        rs = r0 \<lparr> hints := hints r0
                                    @ map (\<lambda>c. missingWord (fst c)) (filter (\<lambda>c. snd c = 0) counts) \<rparr>
                    in Some (Inr rs, countCalls @ [CacheWrite op val rs]))
                 else
                   (let allWords = map fst counts;
                        (last_results, resultsPerWord, queryCalls) =
                           nextWord sub ws allWords None (replicate (length ws) None)
                    in case last_results of
                         None \<Rightarrow> Some (Inl TypeError, countCalls @ queryCalls)
                       | Some (k, fr) \<Rightarrow>
                           (case (if q_phrase options = Some True \<and> length allWords > 1
                                  then map_sum id (\<lambda>ms. \<lparr> items = ms, filterKey = None, hints = [] \<rparr>)
                                         (phrase_reduce k resultsPerWord)
                                  else Inr fr) of
                              Inl e \<Rightarrow> Some (Inl e, countCalls @ queryCalls)
                            | Inr results \<Rightarrow>
                                (let rs = addIgnoredWordHints info (results \<lparr> filterKey := Some (key ix) \<rparr>)
                                 in Some (Inr rs, countCalls @ queryCalls @ [CacheWrite op val rs])))))))"

subsection \<open>\<open>contains\<close> and \<open>query\<close>\<close>

text \<open>
  One level of \<open>contains\<close> (lines 636-965); \<open>q\<close> stands for \<open>this.query\<close> on the same operator,
  which the branches of \<open>OR\<close> and the phrases go through.
\<close>

definition contains_step ::
  "query_context \<Rightarrow> (string \<Rightarrow> FullTextContainsQueryOptions \<Rightarrow> outcome option)
     \<Rightarrow> string \<Rightarrow> string \<Rightarrow> FullTextContainsQueryOptions \<Rightarrow> outcome option" where
  "contains_step ctx q op val options =
     (if op \<notin> set validOperators then Some (Inl UnsupportedOperator, [])
      else
        (case s_cache (qc_substrate ctx) op val of
           Some cached \<Rightarrow> Some (Inr cached, [CacheRead op val])
         | None \<Rightarrow>
             map_option (\<lambda>(r, calls). (r, CacheRead op val # calls))
               (if includes_str '' OR '' val then or_query ctx (\<lambda>v. q v options) val
                else if CHR 0x22 \<in> set val then phrase_query ctx q val options
                else bare_words ctx op val options)))"

text \<open>
  The operator handed to \<open>query\<close>: a string or an instance of \<open>BlacklistingSearchOperator\<close>.
\<close>

datatype query_operator = OpString string | OpBlacklisting

text \<open>
  \<open>query\<close> (lines 619-629) and \<open>contains\<close>, which call each other; \<open>n\<close> bounds the depth of
  the calls of \<open>contains\<close>.  An \<open>options\<close> argument that is \<open>undefined\<close> takes the default.
\<close>

fun contains ::
  "query_context \<Rightarrow> nat \<Rightarrow> string \<Rightarrow> string \<Rightarrow> FullTextContainsQueryOptions option \<Rightarrow> outcome option" where
  "contains ctx 0 op val options = None"
| "contains ctx (Suc n) op val options =
     contains_step ctx
       (\<lambda>v opts. if op = ''fulltext:contains'' \<or> op = ''fulltext:!contains''
                  then contains ctx n op v (Some opts)
                  else Some (Inl UnsupportedOperator, []))
       op val (case options of None \<Rightarrow> default_query_options | Some opts \<Rightarrow> opts)"

definition query ::
  "query_context \<Rightarrow> nat \<Rightarrow> query_operator \<Rightarrow> string \<Rightarrow> FullTextContainsQueryOptions option \<Rightarrow> outcome option" where
  "query ctx n op val options =
     (case op of
        OpBlacklisting \<Rightarrow> Some (Inl NotImplemented, [])
      | OpString s \<Rightarrow>
          if s = ''fulltext:contains'' \<or> s = ''fulltext:!contains''
          then contains ctx n s val options
          else Some (Inl UnsupportedOperator, []))"

subsection \<open>An example substrate\<close>

text \<open>
  For evaluating examples: a substrate over a table of postings \<open>(word, path, _occurs_)\<close> with
  an empty cache; \<open>like\<close> matches \<open>*\<close> and \<open>?\<close> as wildcards, and the scan returns the paths
  without a posting that a check matches (only literal checks are evaluated).
\<close>

fun glob :: "string \<Rightarrow> string \<Rightarrow> bool" where
  "glob [] s = (s = [])"
| "glob (p # ps) [] = (p = CHR ''*'' \<and> glob ps [])"
| "glob (p # ps) (c # cs) =
     (if p = CHR ''*'' then glob ps (c # cs) \<or> glob (p # ps) cs
      else (p = CHR ''?'' \<or> p = c) \<and> glob ps cs)"

definition posting_matches :: "string \<Rightarrow> string \<Rightarrow> string \<Rightarrow> bool" where
  "posting_matches wop w k = (if wop = ''like'' then glob w k else k = w)"

definition table_substrate :: "(string \<times> string \<times> string) list \<Rightarrow> substrate" where
  "table_substrate table =
     \<lparr> s_cache = (\<lambda>op val. None),
       s_count = (\<lambda>wop w. length (filter (\<lambda>(k, p, m). posting_matches wop w k) table)),
       s_query = (\<lambda>wop w flt.
          \<lparr> items = map (\<lambda>(k, p, m). \<lparr> path = p, metadata_occurs = OccursString m \<rparr>)
                      (filter (\<lambda>(k, p, m). posting_matches wop w k \<and>
                          (case flt of None \<Rightarrow> True | Some f \<Rightarrow> p \<in> path ` set (items f))) table),
            filterKey = None, hints = [] \<rparr>),
       s_scan = (\<lambda>checks.
          \<lparr> items = map (\<lambda>p. \<lparr> path = p, metadata_occurs = OccursString [] \<rparr>)
                      (filter (\<lambda>p. \<not> list_ex (\<lambda>(k, p', m). p' = p \<and> CheckWord k \<in> set checks) table)
                         (remdups (map (\<lambda>(k, p, m). p) table))),
            filterKey = None, hints = [] \<rparr>) \<rparr>"

definition example_context :: "(string \<times> string \<times> string) list \<Rightarrow> query_context" where
  "example_context table =
     \<lparr> qc_env = ascii_env, qc_index = example_index, qc_substrate = table_substrate table,
       qc_sort_by_length = sort_key (\<lambda>rs. length (items rs)) \<rparr>"

text \<open>
  The postings of three records with the texts \<open>a x b a y b\<close>, \<open>a b\<close> and \<open>x\<close>, as
  \<open>handleRecordUpdate\<close> writes them.
\<close>

definition example_table :: "(string \<times> string \<times> string) list" where
  "example_table =
     [(''a'', ''r1'', ''0,3''), (''x'', ''r1'', ''1''), (''b'', ''r1'', ''2,5''), (''y'', ''r1'', ''4''),
      (''a'', ''r2'', ''0''), (''b'', ''r2'', ''1''),
      (''x'', ''r3'', ''0'')]"

section \<open>The in-memory predicate \<open>test\<close> (lines 401-479)\<close>

text \<open>
  \<open>Array.prototype.every\<close> and \<open>some\<close> over callbacks that may not return (\<^term>\<open>None\<close>);
  both stop at the first element that decides.
\<close>

fun every_opt :: "('a \<Rightarrow> bool option) \<Rightarrow> 'a list \<Rightarrow> bool option" where
  "every_opt f [] = Some True"
| "every_opt f (x # xs) =
     (case f x of None \<Rightarrow> None | Some b \<Rightarrow> if b then every_opt f xs else Some False)"

fun some_opt :: "('a \<Rightarrow> bool option) \<Rightarrow> 'a list \<Rightarrow> bool option" where
  "some_opt f [] = Some False"
| "some_opt f (x # xs) =
     (case f x of None \<Rightarrow> None | Some b \<Rightarrow> if b then Some True else some_opt f xs)"

text \<open>
  \<open>hasSequenceAtIndex\<close> (lines 442-450); \<open>n\<close> bounds the depth of its calls, and a hole of
  \<open>occurrencesPerWord\<close> is \<^term>\<open>None\<close>.  \<open>startIndex\<close> is \<open>undefined\<close> when the word or the
  occurrence is out of range, and \<open>undefined + 1\<close> is \<open>NaN\<close>, which no index equals.
\<close>

fun hasSequenceAtIndex :: "nat \<Rightarrow> nat list option list \<Rightarrow> nat \<Rightarrow> nat \<Rightarrow> bool option" where
  "hasSequenceAtIndex 0 occurrencesPerWord wordIndex occurrenceIndex = None"
| "hasSequenceAtIndex (Suc n) occurrencesPerWord wordIndex occurrenceIndex =
     (let startIndex =
            (if wordIndex < length occurrencesPerWord then
               (case occurrencesPerWord ! wordIndex of
                  None \<Rightarrow> None
                | Some os \<Rightarrow> if occurrenceIndex < length os then Some (os ! occurrenceIndex) else None)
             else None)
      in every_opt
           (\<lambda>io. case snd io of
                    None \<Rightarrow> Some True
                  | Some occurences \<Rightarrow>
                      some_opt
                        (\<lambda>jx. if Some (snd jx) \<noteq> map_option Suc startIndex then Some False
                               else hasSequenceAtIndex n occurrencesPerWord (wordIndex + fst io) (fst jx))
                        (enumerate 0 occurences))
           (enumerate 0 (drop (wordIndex + 1) occurrencesPerWord)))"

text \<open>
  Lines 437-441: the index lists of the phrase words in the text; a word the text does not
  have gives \<open>undefined\<close>, which cannot be destructured.
\<close>

fun occurrences_of :: "TextInfo \<Rightarrow> string option list \<Rightarrow> error + nat list option list" where
  "occurrences_of textInfo [] = Inr []"
| "occurrences_of textInfo (None # ws) =
     (case occurrences_of textInfo ws of Inl e \<Rightarrow> Inl e | Inr os \<Rightarrow> Inr (None # os))"
| "occurrences_of textInfo (Some w # ws) =
     (case getWordInfo textInfo w of
        None \<Rightarrow> Inl TypeError
      | Some wi \<Rightarrow>
          (case occurrences_of textInfo ws of
             Inl e \<Rightarrow> Inl e
           | Inr os \<Rightarrow> Inr (Some (indexes wi) # os)))"

text \<open>The callback of \<open>phrases.every\<close> (lines 430-469) for one phrase.\<close>

definition test_phrase ::
  "js_env \<Rightarrow> FullTextIndex \<Rightarrow> nat \<Rightarrow> TextInfo \<Rightarrow> string \<Rightarrow> string \<Rightarrow> (error + bool) option" where
  "test_phrase env ix n textInfo loc phrase =
     (case getTextInfo env ix (TStr phrase) (Some loc) of
        None \<Rightarrow> None
      | Some (Inl e) \<Rightarrow> Some (Inl e)
      | Some (Inr phraseInfo) \<Rightarrow>
          (case occurrences_of textInfo (toSequence phraseInfo) of
             Inl e \<Rightarrow> Some (Inl e)
           | Inr occurrencesPerWord \<Rightarrow>
               (case occurrencesPerWord of
                  [] \<Rightarrow> Some (Inl TypeError)
                | None # _ \<Rightarrow> Some (Inl TypeError)
                | Some first # _ \<Rightarrow>
                    map_option Inr
                      (some_opt (\<lambda>i. hasSequenceAtIndex n occurrencesPerWord 0 i)
                         [0..<length first]))))"

fun every_phrase :: "(string \<Rightarrow> (error + bool) option) \<Rightarrow> string list \<Rightarrow> (error + bool) option" where
  "every_phrase f [] = Some (Inr True)"
| "every_phrase f (p # ps) =
     (case f p of
        None \<Rightarrow> None
      | Some (Inl e) \<Rightarrow> Some (Inl e)
      | Some (Inr b) \<Rightarrow> if b then every_phrase f ps else Some (Inr False))"

text \<open>Lines 472-476: every word of the query is a word of the text.\<close>

definition test_words ::
  "js_env \<Rightarrow> FullTextIndex \<Rightarrow> TextInfo \<Rightarrow> string \<Rightarrow> string \<Rightarrow> (error + bool) option" where
  "test_words env ix textInfo loc val =
     (case getTextInfo env ix (TStr val) (Some loc) of
        None \<Rightarrow> None
      | Some (Inl e) \<Rightarrow> Some (Inl e)
      | Some (Inr wordsInfo) \<Rightarrow>
          Some (Inr (list_all (\<lambda>w. case w of None \<Rightarrow> True
                                     | Some w' \<Rightarrow> w' \<in> fst ` set (words textInfo))
                       (toSequence wordsInfo))))"

text \<open>
  \<open>tests.some(val => this.test(text, op, val))\<close> (line 412): \<open>some\<close> takes a result of
  \<open>undefined\<close> (\<^term>\<open>None\<close>) as \<open>false\<close>.
\<close>

fun some_test :: "(string \<Rightarrow> (error + bool option) option) \<Rightarrow> string list \<Rightarrow> (error + bool option) option" where
  "some_test f [] = Some (Inr (Some False))"
| "some_test f (v # vs) =
     (case f v of
        None \<Rightarrow> None
      | Some (Inl e) \<Rightarrow> Some (Inl e)
      | Some (Inr r) \<Rightarrow> if r = Some True then Some (Inr (Some True)) else some_test f vs)"

text \<open>
  \<open>test(obj, op, val)\<close>; \<open>n\<close> bounds the depth of the calls.  The result is \<^term>\<open>None\<close> when
  the call does not return, \<open>Some (Inl e)\<close> when it throws, and \<open>Some (Inr r)\<close> when it returns
  \<open>r\<close>, a boolean or \<open>undefined\<close> (\<^term>\<open>None\<close>): the function ends without a \<open>return\<close> for an
  operator other than \<open>fulltext:contains\<close>.  The branches of \<open>OR\<close> are tested on \<open>text\<close>, the
  value of the indexed key, in the place of \<open>obj\<close>.  A text that a \<open>prepare\<close> callback accepts
  although it is neither a string nor \<open>null\<close> is not followed into these branches
  (\<open>Unmodelled\<close>).
\<close>

fun test ::
  "js_env \<Rightarrow> FullTextIndex \<Rightarrow> nat \<Rightarrow> record_value \<Rightarrow> string \<Rightarrow> string \<Rightarrow> (error + bool option) option" where
  "test env ix 0 obj op val = None"
| "test env ix (Suc n) obj op val =
     (case obj of
        RNull \<Rightarrow> Some (Inr (Some (op = ''fulltext:!contains'')))
      | RUndefined \<Rightarrow> Some (Inl TypeError)
      | _ \<Rightarrow>
          (case (case get_property env obj (key ix) of None \<Rightarrow> PUndefined | Some p \<Rightarrow> p) of
             PUndefined \<Rightarrow> Some (Inr (Some (op = ''fulltext:!contains'')))
           | text \<Rightarrow>
               (case value_locale env ix obj of
                  None \<Rightarrow> Some (Inl TypeError)
                | Some loc \<Rightarrow>
                    (case getTextInfo env ix (text_of_prop text) (Some loc) of
                       None \<Rightarrow> None
                     | Some (Inl e) \<Rightarrow> Some (Inl e)
                     | Some (Inr textInfo) \<Rightarrow>
                         if op = ''fulltext:contains'' then
                           if includes_str '' OR '' val then
                             (case text of
                                PStr t \<Rightarrow>
                                  some_test (\<lambda>v. test env ix n (RStr t) op v) (split_str '' OR '' val)
                              | PNull \<Rightarrow>
                                  some_test (\<lambda>v. test env ix n RNull op v) (split_str '' OR '' val)
                              | _ \<Rightarrow> Some (Inl Unmodelled))
                           else if CHR 0x22 \<in> set val then
                             (let (phrases, val') = extract_phrases val
                              in map_option (map_sum id Some)
                                   (every_phrase (test_phrase env ix n textInfo loc)
                                      (if val' \<noteq> [] then phrases @ [val'] else phrases)))
                           else map_option (map_sum id Some) (test_words env ix textInfo loc val)
                         else Some (Inr None)))))"

section \<open>Notions used in the statements and proofs\<close>

text \<open>
  The invariant of the matching loop: after \<open>n\<close> kept words the keys are distinct, the index
  lists together hold every position below \<open>n\<close> exactly once, and every entry is well formed.
\<close>

definition tok_inv :: "nat \<Rightarrow> (string \<times> WordInfo) list \<Rightarrow> bool" where
  "tok_inv n ws \<longleftrightarrow>
     distinct (map fst ws) \<and>
     distinct (concat (map (indexes \<circ> snd) ws)) \<and>
     sum_list (map (occurs \<circ> snd) ws) = n \<and>
     (\<forall>e\<in>set ws. word (snd e) = fst e \<and> sorted_wrt (<) (indexes (snd e)) \<and>
        (\<forall>i\<in>set (indexes (snd e)). i < n) \<and>
        length (indexes (snd e)) = length (sourceIndexes (snd e)))"


text \<open>
  The changed words as the specification states them: the words of both texts whose occurrence
  counts differ or whose index lists differ at some position.
\<close>

definition changed_set :: "TextInfo \<Rightarrow> TextInfo \<Rightarrow> string set" where
  "changed_set oldTI newTI =
     {w \<in> set (toArray oldTI) \<inter> set (toArray newTI).
        \<exists>oldInfo newInfo. getWordInfo oldTI w = Some oldInfo \<and> getWordInfo newTI w = Some newInfo \<and>
          (occurs oldInfo \<noteq> occurs newInfo \<or>
           (\<exists>i<occurs oldInfo. i < occurs newInfo \<and> indexes oldInfo ! i \<noteq> indexes newInfo ! i))}"

text \<open>
  Position lists that hold integers only, as the phrase check would see them if every field
  of \<open>_occurs_\<close> were read in base 10.
\<close>

definition integer_matches :: "int list list \<Rightarrow> jsnum list option list" where
  "integer_matches P = map (\<lambda>ps. Some (map Some ps)) P"

section \<open>Verification: the metadata codec\<close>

lemma digit_char_not_comma: "d < 10 \<Longrightarrow> digit_char d \<noteq> CHR '','' \<and> CHR '','' \<noteq> digit_char d"
proof -
  assume "d < 10"
  then have "d \<in> {0,1,2,3,4,5,6,7,8,9}" by auto
  then show ?thesis by (auto simp: digit_char_def)
qed

lemma number_toString_nonempty: "number_toString n \<noteq> []"
  by (subst number_toString.simps) simp

lemma number_toString_no_comma: "CHR '','' \<notin> set (number_toString n)"
proof (induction n rule: number_toString.induct)
  case (1 n)
  show ?case
  proof (cases "n < 10")
    case True
    then show ?thesis by (subst number_toString.simps) (simp add: digit_char_not_comma)
  next
    case False
    with 1 show ?thesis
      by (subst number_toString.simps) (simp add: digit_char_not_comma)
  qed
qed

lemma number_toString_length: "0 < k \<Longrightarrow> n < 10 ^ k \<Longrightarrow> length (number_toString n) \<le> k"
proof (induction n arbitrary: k rule: number_toString.induct)
  case (1 n)
  show ?case
  proof (cases "n < 10")
    case True
    with 1 show ?thesis by (subst number_toString.simps) simp
  next
    case False
    with "1.prems" obtain j where k: "k = Suc j" by (cases k) auto
    with False "1.prems" have "0 < j" by (cases j) auto
    moreover from k "1.prems" have "n div 10 < 10 ^ j" by (simp add: less_mult_imp_div_less mult.commute)
    ultimately have "length (number_toString (n div 10)) \<le> j" using "1.IH" False by blast
    with False k show ?thesis by (subst number_toString.simps) simp
  qed
qed


lemma join_Cons: "ds \<noteq> [] \<Longrightarrow> join sep (d # ds) = d @ sep @ join sep ds"
  by (cases ds) auto

lemma join_nonempty: "ds \<noteq> [] \<Longrightarrow> \<forall>f\<in>set ds. f \<noteq> [] \<Longrightarrow> join sep ds \<noteq> []"
  by (cases "(sep, ds)" rule: join.cases) auto

lemma join_cut:
  "\<forall>f\<in>set ds. field_ok f \<Longrightarrow> c < length (join '','' ds) \<Longrightarrow> join '','' ds ! c = CHR '','' \<Longrightarrow>
   \<exists>m. 0 < m \<and> m < length ds \<and> take c (join '','' ds) = join '','' (take m ds)"
proof (induction ds arbitrary: c)
  case Nil
  then show ?case by simp
next
  case (Cons d ds)
  show ?case
  proof (cases "ds = []")
    case True
    with Cons.prems show ?thesis by (auto simp: field_ok_def dest: nth_mem)
  next
    case False
    then have j: "join '','' (d # ds) = d @ CHR '','' # join '','' ds" by (simp add: join_Cons)
    have d: "d \<noteq> []" "CHR '','' \<notin> set d" using Cons.prems(1) by (auto simp: field_ok_def)
    have notless: "\<not> c < length d"
    proof
      assume "c < length d"
      with Cons.prems(3) j have "d ! c = CHR '',''" by (simp add: nth_append)
      with \<open>c < length d\<close> d show False by (auto dest: nth_mem)
    qed
    show ?thesis
    proof (cases "c = length d")
      case True
      then have "take c (join '','' (d # ds)) = join '','' (take 1 (d # ds))" by (simp add: j)
      with False show ?thesis by (intro exI[of _ 1]) auto
    next
      case False
      with notless obtain c' where c': "c = length d + 1 + c'" by (metis add.commute add_Suc_right less_natE linorder_neqE_nat plus_1_eq_Suc)
      from Cons.prems(2,3) have "c' < length (join '','' ds)" "join '','' ds ! c' = CHR '',''"
        by (auto simp: j c' nth_append)
      with Cons.IH[of c'] Cons.prems(1) obtain m where m: "0 < m" "m < length ds"
        "take c' (join '','' ds) = join '','' (take m ds)" by auto
      from m(1,2) have ne: "take m ds \<noteq> []" by auto
      have "take c (join '','' (d # ds)) = d @ CHR '','' # take c' (join '','' ds)"
        by (simp add: j c')
      also have "\<dots> = join '','' (take (Suc m) (d # ds))" using ne m(3) by (simp add: join_Cons)
      finally show ?thesis using m by (intro exI[of _ "Suc m"]) auto
    qed
  qed
qed

lemma lastIndexOf_cases:
  "lastIndexOf c s k = - 1 \<and> (\<forall>j\<le>k. j < length s \<longrightarrow> s ! j \<noteq> c) \<or>
   (\<exists>r. lastIndexOf c s k = int r \<and> r \<le> k \<and> r < length s \<and> s ! r = c \<and>
        (\<forall>j. r < j \<and> j \<le> k \<and> j < length s \<longrightarrow> s ! j \<noteq> c))"
proof (induction k)
  case 0
  then show ?case by auto
next
  case (Suc k)
  show ?case
  proof (cases "Suc k < length s \<and> s ! Suc k = c")
    case True
    then show ?thesis by (intro disjI2 exI[of _ "Suc k"]) auto
  next
    case False
    from Suc show ?thesis
    proof
      assume a: "lastIndexOf c s k = - 1 \<and> (\<forall>j\<le>k. j < length s \<longrightarrow> s ! j \<noteq> c)"
      have "\<forall>j\<le>Suc k. j < length s \<longrightarrow> s ! j \<noteq> c"
        using a False by (auto simp: le_Suc_eq)
      with a False show ?thesis by auto
    next
      assume "\<exists>r. lastIndexOf c s k = int r \<and> r \<le> k \<and> r < length s \<and> s ! r = c \<and>
        (\<forall>j. r < j \<and> j \<le> k \<and> j < length s \<longrightarrow> s ! j \<noteq> c)"
      then obtain r where r: "lastIndexOf c s k = int r" "r \<le> k" "r < length s" "s ! r = c"
        "\<forall>j. r < j \<and> j \<le> k \<and> j < length s \<longrightarrow> s ! j \<noteq> c" by blast
      have "\<forall>j. r < j \<and> j \<le> Suc k \<and> j < length s \<longrightarrow> s ! j \<noteq> c"
        using r(5) False by (auto simp: le_Suc_eq)
      with r False show ?thesis by auto
    qed
  qed
qed

lemma join_first_comma:
  "length ds \<ge> 2 \<Longrightarrow> join '','' ds ! length (hd ds) = CHR '','' \<and> length (hd ds) < length (join '','' ds)"
  by (cases "('','', ds)" rule: join.cases) (auto simp: nth_append)

lemma join_last_not_comma:
  "ds \<noteq> [] \<Longrightarrow> \<forall>f\<in>set ds. field_ok f \<Longrightarrow> last (join '','' ds) \<noteq> CHR '',''"
proof (induction ds)
  case Nil then show ?case by simp
next
  case (Cons d ds)
  show ?case
  proof (cases "ds = []")
    case True
    from Cons.prems have "last d \<in> set d" "CHR '','' \<notin> set d" by (simp_all add: field_ok_def)
    then have "last d \<noteq> CHR '',''" by metis
    with True show ?thesis by simp
  next
    case False
    with Cons have "last (join '','' ds) \<noteq> CHR '',''" by auto
    moreover have "join '','' ds \<noteq> []"
      by (rule join_nonempty[OF False]) (use Cons.prems in \<open>simp add: field_ok_def\<close>)
    ultimately show ?thesis using False by (simp add: join_Cons)
  qed
qed


lemma fields_ok:
  "\<forall>f\<in>set (map number_toString idx). field_ok f"
  by (simp add: field_ok_def number_toString_nonempty number_toString_no_comma)

lemma join_take_map: "join sep (take m (map f xs)) = join sep (map f (take m xs))"
  by (simp add: take_map)

text \<open>
  Claim C3.  For the index list of a posted word (positions are word counts of one text, far
  below \<open>2^53\<close>, where \<open>join\<close> renders plain decimals), the stored \<open>_occurs_\<close> string is at
  most 255 characters long, does not end in a comma, is the comma-joined rendering of a prefix
  of the index list, is the whole rendering when that fits in 255 characters, and is otherwise
  the rendering cut at its last comma at or before index 255.
\<close>

theorem encode_occurs_bounded_prefix:
  assumes small: "\<forall>i\<in>set idxs. i < 2 ^ 53"
  shows "length (encode_occurs idxs) \<le> 255 \<and>
     (encode_occurs idxs = [] \<or> last (encode_occurs idxs) \<noteq> CHR '','') \<and>
     (\<exists>m\<le>length idxs.
        encode_occurs idxs = join '','' (map number_toString (take m idxs))) \<and>
     (if length (join '','' (map number_toString idxs)) \<le> 255
      then encode_occurs idxs = join '','' (map number_toString idxs)
      else \<exists>c\<le>255. join '','' (map number_toString idxs) ! c = CHR '','' \<and>
             encode_occurs idxs = take c (join '','' (map number_toString idxs)) \<and>
             (\<forall>j. c < j \<and> j \<le> 255 \<longrightarrow> join '','' (map number_toString idxs) ! j \<noteq> CHR '',''))"
proof -
  define full where "full = join '','' (map number_toString idxs)"

  let ?ds = "map number_toString idxs"
  have ok: "\<forall>f\<in>set ?ds. field_ok f" by (rule fields_ok)
  have len16: "\<forall>f\<in>set ?ds. length f \<le> 16"
  proof
    fix f assume "f \<in> set ?ds"
    then obtain i where i: "i \<in> set idxs" "f = number_toString i" by auto
    with small have "i < 2 ^ 53" by blast
    also have "(2::nat) ^ 53 < 10 ^ 16" by simp
    finally show "length f \<le> 16" using number_toString_length[of 16 i] i by simp
  qed
  have cut: "\<exists>c\<le>255. full ! c = CHR '','' \<and> encode_occurs idxs = take c full \<and>
             (\<forall>j. c < j \<and> j \<le> 255 \<longrightarrow> full ! j \<noteq> CHR '','')" if long: "length full > 255"
  proof -
    have two: "length ?ds \<ge> 2"
    proof (rule ccontr)
      assume "\<not> 2 \<le> length ?ds"
      then consider "?ds = []" | d where "?ds = [d]"
        by (cases ?ds; cases "tl ?ds") auto
      then show False
      proof cases
        case 1 with long show False by (simp add: full_def)
      next
        case 2
        with len16 have "length d \<le> 16" by (metis list.set_intros(1))
        with 2 long show False by (simp add: full_def)
      qed
    qed
    have "hd ?ds \<in> set ?ds" using two by (cases ?ds) auto
    with len16 have h16: "length (hd ?ds) \<le> 16" by blast
    from join_first_comma[OF two] have fc: "full ! length (hd ?ds) = CHR '',''"
      "length (hd ?ds) < length full" by (auto simp: full_def)
    have "\<not> (\<forall>j\<le>255. j < length full \<longrightarrow> full ! j \<noteq> CHR '','')"
      using fc h16 by (intro notI) (drule spec[of _ "length (hd ?ds)"], simp)
    with lastIndexOf_cases[of "CHR '',''" full 255]
    obtain r where r: "lastIndexOf CHR '','' full 255 = int r" "r \<le> 255" "r < length full"
      "full ! r = CHR '',''" "\<forall>j. r < j \<and> j \<le> 255 \<and> j < length full \<longrightarrow> full ! j \<noteq> CHR '',''"
      by blast
    have "encode_occurs idxs = take r full"
      using long r(1) by (simp add: encode_occurs_def full_def[symmetric] Let_def slice0_def)
    with r long show ?thesis by (intro exI[of _ r]) auto
  qed
  have c5: "length full > 255 \<longrightarrow>
          (\<exists>c\<le>255. full ! c = CHR '','' \<and> encode_occurs idxs = take c full \<and>
             (\<forall>j. c < j \<and> j \<le> 255 \<longrightarrow> full ! j \<noteq> CHR '',''))"
    using cut by blast
  have c4: "length full \<le> 255 \<longrightarrow> encode_occurs idxs = full"
    by (simp add: encode_occurs_def full_def Let_def)
  have c1: "length (encode_occurs idxs) \<le> 255"
  proof (cases "length full > 255")
    case True
    with cut obtain c where "c \<le> 255" "encode_occurs idxs = take c full" by blast
    then show ?thesis by simp
  next
    case False with c4 show ?thesis by simp
  qed
  have pre: "\<exists>m. 0 < m \<and> m < length idxs \<and> encode_occurs idxs = join '','' (map number_toString (take m idxs))"
    if long: "length full > 255"
  proof -
    from cut[OF long] obtain c where c: "c \<le> 255" "full ! c = CHR '',''" "encode_occurs idxs = take c full" by blast
    from c(1) long have "c < length (join '','' ?ds)" by (simp add: full_def)
    from join_cut[OF ok this] c(2) obtain m where "0 < m" "m < length ?ds"
      "take c (join '','' ?ds) = join '','' (take m ?ds)" by (auto simp: full_def)
    with c(3) show ?thesis by (intro exI[of _ m]) (simp add: full_def take_map)
  qed
  have c3: "\<exists>m\<le>length idxs. encode_occurs idxs = join '','' (map number_toString (take m idxs))"
  proof (cases "length full > 255")
    case True
    from pre[OF True] show ?thesis by (metis less_imp_le)
  next
    case False
    with c4 show ?thesis by (intro exI[of _ "length idxs"]) (simp add: full_def)
  qed
  have c2: "encode_occurs idxs \<noteq> [] \<longrightarrow> last (encode_occurs idxs) \<noteq> CHR '',''"
  proof (cases "length full > 255")
    case True
    from pre[OF True] obtain m where m: "0 < m" "m < length idxs"
      "encode_occurs idxs = join '','' (map number_toString (take m idxs))" by blast
    have "map number_toString (take m idxs) \<noteq> []" using m by auto
    moreover have "\<forall>f\<in>set (map number_toString (take m idxs)). field_ok f" by (rule fields_ok)
    ultimately show ?thesis using join_last_not_comma m(3) by metis
  next
    case False
    show ?thesis
    proof (cases "idxs = []")
      case True with False c4 show ?thesis by (simp add: full_def)
    next
      case ne: False
      then have "?ds \<noteq> []" by simp
      from join_last_not_comma[OF this ok] False c4 show ?thesis by (simp add: full_def)
    qed
  qed
  show ?thesis
  proof (cases "length full \<le> 255")
    case True
    with c1 c2 c3 c4 show ?thesis unfolding full_def by auto
  next
    case False
    then have "length full > 255" by simp
    with c5 have "\<exists>c\<le>255. full ! c = CHR '','' \<and> encode_occurs idxs = take c full \<and>
             (\<forall>j. c < j \<and> j \<le> 255 \<longrightarrow> full ! j \<noteq> CHR '','')" by blast
    with c1 c2 c3 False show ?thesis unfolding full_def by auto
  qed
qed

theorem encode_occurs_bounded_prefix_witness:
  "length (encode_occurs [7, 8, 1000]) \<le> 255 \<and>
   encode_occurs [7, 8, 1000] = ''7,8,1000'' \<and>
   last (encode_occurs [7, 8, 1000]) \<noteq> CHR '','' \<and>
   (\<exists>m\<le>length [7, 8, 1000 :: nat].
      encode_occurs [7, 8, 1000] = join '','' (map number_toString (take m [7, 8, 1000])))"
proof -
  have h: "\<forall>i\<in>set [7, 8, 1000]. i < (2::nat) ^ 53" by simp
  have l: "encode_occurs [7, 8, 1000] = ''7,8,1000''" by code_simp
  with encode_occurs_bounded_prefix[OF h] show ?thesis by simp
qed

text \<open>
  Claim C4.  The reader does not parse every field in base 10: field \<open>i\<close> is parsed with radix
  \<open>i\<close>.  The two-element list \<open>[0, 1]\<close> is stored as \<open>0,1\<close> and read back as \<open>[0, NaN]\<close>.
\<close>

theorem decode_occurs_not_inverse:
  "encode_occurs [0, 1] = ''0,1'' \<and>
   decode_occurs (encode_occurs [0, 1]) = [Some 0, None] \<and>
   decode_occurs (encode_occurs [0, 1]) \<noteq> map Some [0, 1]"
  by code_simp

section \<open>Verification: the tokenizer\<close>

lemma tok_inv_empty: "tok_inv 0 []"
  by (simp add: tok_inv_def)

lemma fold_occurs:
  "fold (\<lambda>(k, wordInfo) total. total + occurs wordInfo) ws a
     = a + sum_list (map (occurs \<circ> snd) ws)"
  by (induction ws arbitrary: a) (auto simp: case_prod_beta)

lemma wordCount_sum: "wordCount ti = sum_list (map (occurs \<circ> snd) (words ti))"
  by (simp add: wordCount_def fold_occurs)

lemma add_occurrence_new:
  assumes "map_of ws w = None" and "tok_inv n ws"
  shows "tok_inv (Suc n) (add_occurrence w n at ws)"
proof -
  from assms(1) have nk: "w \<notin> fst ` set ws" by (simp add: map_of_eq_None_iff)
  have fresh: "n \<notin> set (concat (map (indexes \<circ> snd) ws))"
    using assms(2) by (fastforce simp: tok_inv_def)
  have "add_occurrence w n at ws = ws @ [(w, \<lparr> word = w, indexes = [n], sourceIndexes = [at] \<rparr>)]"
    using assms(1) by (simp add: add_occurrence_def)
  then show ?thesis
    using assms(2) nk fresh by (auto simp: tok_inv_def occurs_def less_Suc_eq)
qed

lemma map_update_absent:
  "w \<notin> fst ` set ws \<Longrightarrow> map (\<lambda>(k, wi). if k = w then (k, f wi) else (k, wi)) ws = ws"
  by (induction ws) auto

lemma map_update_split:
  assumes "distinct (map fst ws)" and "map_of ws w = Some wi"
  shows "\<exists>us vs. ws = us @ (w, wi) # vs \<and> w \<notin> fst ` set us \<and> w \<notin> fst ` set vs \<and>
           map (\<lambda>(k, wi). if k = w then (k, f wi) else (k, wi)) ws = us @ (w, f wi) # vs"
proof -
  from assms(2) have "(w, wi) \<in> set ws" by (rule map_of_SomeD)
  then obtain us vs where ws: "ws = us @ (w, wi) # vs" by (auto dest: split_list)
  with assms(1) have n: "w \<notin> fst ` set us" "w \<notin> fst ` set vs" by auto
  then have "map (\<lambda>(k, wi). if k = w then (k, f wi) else (k, wi)) ws = us @ (w, f wi) # vs"
    by (simp add: ws map_update_absent)
  with ws n show ?thesis by blast
qed

lemma add_occurrence_old:
  assumes "map_of ws w = Some wi0" and "tok_inv n ws"
  shows "tok_inv (Suc n) (add_occurrence w n at ws)"
proof -
  have d: "distinct (map fst ws)" using assms(2) by (simp add: tok_inv_def)
  let ?f = "\<lambda>wi. wi \<lparr> indexes := indexes wi @ [n], sourceIndexes := sourceIndexes wi @ [at] \<rparr>"
  from map_update_split[OF d assms(1), of ?f] obtain us vs where
    ws: "ws = us @ (w, wi0) # vs" and
    new: "map (\<lambda>(k, wi). if k = w then (k, ?f wi) else (k, wi)) ws = us @ (w, ?f wi0) # vs"
    by blast
  have eq: "add_occurrence w n at ws = us @ (w, ?f wi0) # vs"
    using assms(1) new by (simp add: add_occurrence_def)
  have fresh: "n \<notin> set (concat (map (indexes \<circ> snd) ws))"
    using assms(2) by (fastforce simp: tok_inv_def)
  have lt: "\<forall>e\<in>set ws. \<forall>i\<in>set (indexes (snd e)). i < n"
    using assms(2) by (simp add: tok_inv_def)
  have c1: "distinct (map fst (us @ (w, ?f wi0) # vs))"
    using d by (simp add: ws)
  have c2: "distinct (concat (map (indexes \<circ> snd) (us @ (w, ?f wi0) # vs)))"
    using assms(2) fresh by (auto simp: tok_inv_def ws)
  have c3: "sum_list (map (occurs \<circ> snd) (us @ (w, ?f wi0) # vs)) = Suc n"
    using assms(2) by (auto simp: tok_inv_def ws occurs_def)
  have c4: "\<forall>e\<in>set (us @ (w, ?f wi0) # vs). word (snd e) = fst e \<and> sorted_wrt (<) (indexes (snd e)) \<and>
        (\<forall>i\<in>set (indexes (snd e)). i < Suc n) \<and>
        length (indexes (snd e)) = length (sourceIndexes (snd e))"
    using assms(2) by (auto simp: tok_inv_def ws sorted_wrt_append less_Suc_eq)
  show ?thesis unfolding eq tok_inv_def using c1 c2 c3 c4 by blast
qed

lemma add_occurrence_inv: "tok_inv n ws \<Longrightarrow> tok_inv (Suc n) (add_occurrence w n at ws)"
  by (cases "map_of ws w") (auto intro: add_occurrence_new add_occurrence_old)

lemma match_step_inv:
  assumes "tok_inv n (words ti)" and "match_step t m (n, ti) = (n', ti')"
  shows "tok_inv n' (words ti')"
  using assms
  by (auto simp: match_step_def Let_def add_occurrence_inv
      split: prod.splits option.splits if_splits)

lemma match_loop_inv:
  "tok_inv (fst st) (words (snd st)) \<Longrightarrow>
   tok_inv (fst (match_loop t ms st)) (words (snd (match_loop t ms st)))"
  unfolding match_loop_def
proof (induction ms arbitrary: st)
  case Nil
  then show ?case by simp
next
  case (Cons m ms)
  obtain n ti where st: "st = (n, ti)" by (cases st)
  obtain n' ti' where s: "match_step t m (n, ti) = (n', ti')" by (cases "match_step t m (n, ti)")
  with Cons.prems st have "tok_inv n' (words ti')" by (auto intro: match_step_inv)
  with Cons.IH[of "(n', ti')"] s st show ?case by simp
qed

lemma TextInfo_new_inv:
  assumes "TextInfo_new env text options = Some (Inr ti)"
  shows "\<exists>n. tok_inv n (words ti)"
proof -
  let ?e = "empty_TextInfo options"
  have e: "tok_inv (fst (0::nat, ?e)) (words (snd (0::nat, ?e)))"
    by (simp add: tok_inv_empty empty_TextInfo_def)
  from assms consider "ti = ?e" |
    t ms where "ti = snd (match_loop t ms (0, ?e))"
    by (auto simp: TextInfo_new_def split: option.splits sum.splits if_splits)
  then show ?thesis
  proof cases
    case 1
    then show ?thesis using tok_inv_empty by (auto simp: empty_TextInfo_def)
  next
    case 2
    from match_loop_inv[OF e, of t ms] 2 show ?thesis by auto
  qed
qed

lemma distinct_concat_disjoint:
  "distinct (concat xss) \<Longrightarrow> i < length xss \<Longrightarrow> j < length xss \<Longrightarrow> i \<noteq> j \<Longrightarrow>
   set (xss ! i) \<inter> set (xss ! j) = {}"
proof (induction xss arbitrary: i j)
  case Nil
  then show ?case by simp
next
  case (Cons xs xss)
  show ?case
  proof (cases i)
    case 0
    with Cons.prems obtain j' where "j = Suc j'" "j' < length xss" by (cases j) auto
    with 0 Cons.prems(1) show ?thesis by (fastforce dest: nth_mem)
  next
    case (Suc i')
    show ?thesis
    proof (cases j)
      case 0
      with Suc Cons.prems show ?thesis by (fastforce dest: nth_mem)
    next
      case (Suc j')
      with \<open>i = Suc i'\<close> Cons show ?thesis by auto
    qed
  qed
qed

text \<open>
  Claim C8.  Every \<open>TextInfo\<close> the constructor returns has \<open>wordCount\<close> equal to the sum of
  \<open>occurs\<close> over its entries, strictly increasing \<open>indexes\<close> in every entry, as many
  \<open>sourceIndexes\<close> as \<open>indexes\<close> in every entry, and pairwise disjoint index sets for different
  entries.
\<close>

theorem TextInfo_invariants:
  assumes "TextInfo_new env text options = Some (Inr ti)"
  shows "wordCount ti = sum_list (map (occurs \<circ> snd) (words ti)) \<and>
         (\<forall>e\<in>set (words ti). sorted_wrt (<) (indexes (snd e)) \<and>
            length (indexes (snd e)) = length (sourceIndexes (snd e))) \<and>
         (\<forall>i<length (words ti). \<forall>j<length (words ti). i \<noteq> j \<longrightarrow>
            set (indexes (snd (words ti ! i))) \<inter> set (indexes (snd (words ti ! j))) = {})"
proof -
  from TextInfo_new_inv[OF assms] obtain n where inv: "tok_inv n (words ti)" ..
  then have d: "distinct (concat (map (indexes \<circ> snd) (words ti)))" by (simp add: tok_inv_def)
  have "set (indexes (snd (words ti ! i))) \<inter> set (indexes (snd (words ti ! j))) = {}"
    if "i < length (words ti)" "j < length (words ti)" "i \<noteq> j" for i j
    using distinct_concat_disjoint[OF d, of i j] that by simp
  with inv show ?thesis by (simp add: wordCount_sum tok_inv_def)
qed

theorem TextInfo_invariants_witness:
  "\<exists>ti. TextInfo_new ascii_env (TStr ''a b a'') plain_options = Some (Inr ti) \<and>
     map fst (words ti) = [''a'', ''b''] \<and>
     wordCount ti = sum_list (map (occurs \<circ> snd) (words ti)) \<and>
     (\<forall>e\<in>set (words ti). sorted_wrt (<) (indexes (snd e)) \<and>
        length (indexes (snd e)) = length (sourceIndexes (snd e)))"
proof -
  let ?ti = "\<lparr>ti_locale = ''en'',
      words = [(''a'', \<lparr>word = ''a'', indexes = [0, 2], sourceIndexes = [0, 4]\<rparr>),
               (''b'', \<lparr>word = ''b'', indexes = [1], sourceIndexes = [2]\<rparr>)],
      ignored = []\<rparr>"
  have h: "TextInfo_new ascii_env (TStr ''a b a'') plain_options = Some (Inr ?ti)"
    by code_simp
  from TextInfo_invariants[OF h] h show ?thesis
    by (intro exI[of _ ?ti]) simp
qed

section \<open>Verification: index maintenance\<close>

lemma some_differs_iff:
  "length xs = length ys \<Longrightarrow> some_differs xs ys \<longleftrightarrow> (\<exists>i<length xs. xs ! i \<noteq> ys ! i)"
proof (induction xs ys rule: some_differs.induct)
  case (1 new)
  then show ?case by simp
next
  case (2 x xs)
  then show ?case by simp
next
  case (3 x xs y ys)
  then have IH: "some_differs xs ys \<longleftrightarrow> (\<exists>i<length xs. xs ! i \<noteq> ys ! i)" by simp
  have "(\<exists>i<Suc (length xs). (x # xs) ! i \<noteq> (y # ys) ! i)
          \<longleftrightarrow> x \<noteq> y \<or> (\<exists>i<length xs. xs ! i \<noteq> ys ! i)"
    by (auto simp: less_Suc_eq_0_disj)
  with IH show ?case by auto
qed

lemma word_changed_iff:
  "word_changed oldTI newTI w \<longleftrightarrow>
     (\<exists>oldInfo newInfo. getWordInfo oldTI w = Some oldInfo \<and> getWordInfo newTI w = Some newInfo \<and>
        (occurs oldInfo \<noteq> occurs newInfo \<or>
         (\<exists>i<occurs oldInfo. i < occurs newInfo \<and> indexes oldInfo ! i \<noteq> indexes newInfo ! i)))"
proof (cases "getWordInfo oldTI w")
  case None
  then show ?thesis by (simp add: word_changed_def)
next
  case (Some oldInfo)
  note o = this
  show ?thesis
  proof (cases "getWordInfo newTI w")
    case None
    with o show ?thesis by (simp add: word_changed_def)
  next
    case (Some newInfo)
    show ?thesis
    proof (cases "occurs oldInfo = occurs newInfo")
      case True
      then have "length (indexes oldInfo) = length (indexes newInfo)" by (simp add: occurs_def)
      from some_differs_iff[OF this] True o Some show ?thesis
        by (auto simp: word_changed_def occurs_def)
    next
      case False
      with o Some show ?thesis by (simp add: word_changed_def)
    qed
  qed
qed

lemma add_updates_known:
  "set ws \<subseteq> set (toArray newTI) \<Longrightarrow>
   add_updates p newTI ws =
     (map (\<lambda>w. AddWord p w (encode_occurs (indexes (the (getWordInfo newTI w))))) ws, None)"
proof (induction ws)
  case Nil
  then show ?case by simp
next
  case (Cons w ws)
  then have "w \<in> fst ` set (words newTI)" by (simp add: toArray_def)
  then obtain wi where "getWordInfo newTI w = Some wi"
    by (metis getWordInfo_def map_of_eq_None_iff not_Some_eq)
  with Cons show ?case by simp
qed

lemma promise_all_iff: "promise_all rs = Inr () \<longleftrightarrow> (\<forall>r\<in>set rs. r = Inr ())"
  by (induction rs rule: promise_all.induct) auto

lemma set_changed_words: "set (changed_words oldTI newTI) = changed_set oldTI newTI"
  by (auto simp: changed_words_def changed_set_def word_changed_iff)

lemma changed_subset: "changed_set oldTI newTI \<subseteq> set (toArray newTI)"
  by (auto simp: changed_set_def)

text \<open>
  Claim C2.  When both texts tokenize to \<open>oldTI\<close> and \<open>newTI\<close>, the call issues exactly the
  removals of the words of \<open>oldTI\<close> that are not in \<open>newTI\<close> and of the changed words, and exactly
  the additions of the words of \<open>newTI\<close> that are not in \<open>oldTI\<close> and of the changed words, each
  addition carrying the encoded index list of \<open>newTI\<close>; a word is changed when it is in both and
  its occurrence counts differ or some position differs.  The call is fulfilled exactly when
  every one of these substrate calls is fulfilled.
\<close>

theorem handleRecordUpdate_word_sets:
  assumes "value_locale env ix oldValue = Some oldLocale"
    and "value_locale env ix newValue = Some newLocale"
    and "getTextInfo env ix (update_text ix oldValue) (Some oldLocale) = Some (Inr oldTI)"
    and "getTextInfo env ix (update_text ix newValue) (Some newLocale) = Some (Inr newTI)"
  shows "\<exists>outcome ups.
     handleRecordUpdate env ix sub p oldValue newValue = Some (outcome, ups) \<and>
     {(q, w). RemoveWord q w \<in> set ups}
        = {p} \<times> ((set (toArray oldTI) - set (toArray newTI)) \<union> changed_set oldTI newTI) \<and>
     {(q, w). \<exists>m. AddWord q w m \<in> set ups}
        = {p} \<times> ((set (toArray newTI) - set (toArray oldTI)) \<union> changed_set oldTI newTI) \<and>
     (\<forall>q w m. AddWord q w m \<in> set ups \<longrightarrow>
        (\<exists>wordInfo. getWordInfo newTI w = Some wordInfo \<and> m = encode_occurs (indexes wordInfo))) \<and>
     (outcome = Inr () \<longleftrightarrow> (\<forall>u\<in>set ups. sub u = Inr ()))"
proof -
  let ?removed = "removed_words oldTI newTI"
  let ?added = "added_words oldTI newTI"
  let ?meta = "\<lambda>w. encode_occurs (indexes (the (getWordInfo newTI w)))"
  let ?ups = "map (RemoveWord p) ?removed @ map (\<lambda>w. AddWord p w (?meta w)) ?added"
  have sub_added: "set ?added \<subseteq> set (toArray newTI)"
    using changed_subset[of oldTI newTI] by (auto simp: added_words_def set_changed_words)
  have adds: "add_updates p newTI ?added = (map (\<lambda>w. AddWord p w (?meta w)) ?added, None)"
    by (rule add_updates_known[OF sub_added])
  have run: "handleRecordUpdate env ix sub p oldValue newValue
               = Some (promise_all (map sub ?ups), ?ups)"
    using assms adds by (simp add: handleRecordUpdate_def Let_def)
  have r: "set ?removed = (set (toArray oldTI) - set (toArray newTI)) \<union> changed_set oldTI newTI"
    by (auto simp: removed_words_def set_changed_words)
  have a: "set ?added = (set (toArray newTI) - set (toArray oldTI)) \<union> changed_set oldTI newTI"
    by (auto simp: added_words_def set_changed_words)
  have c1: "{(q, w). RemoveWord q w \<in> set ?ups} = {p} \<times> set ?removed" by auto
  have c2: "{(q, w). \<exists>m. AddWord q w m \<in> set ?ups} = {p} \<times> set ?added" by auto
  have c3: "\<forall>q w m. AddWord q w m \<in> set ?ups \<longrightarrow>
        (\<exists>wordInfo. getWordInfo newTI w = Some wordInfo \<and> m = encode_occurs (indexes wordInfo))"
  proof (intro allI impI)
    fix q w m assume "AddWord q w m \<in> set ?ups"
    then have w: "w \<in> set ?added" and m: "m = ?meta w" by auto
    with sub_added have "w \<in> fst ` set (words newTI)" by (auto simp: toArray_def)
    then obtain wi where "getWordInfo newTI w = Some wi"
      by (metis getWordInfo_def map_of_eq_None_iff not_Some_eq)
    with m show "\<exists>wordInfo. getWordInfo newTI w = Some wordInfo \<and> m = encode_occurs (indexes wordInfo)"
      by simp
  qed
  have c4: "promise_all (map sub ?ups) = Inr () \<longleftrightarrow> (\<forall>u\<in>set ?ups. sub u = Inr ())"
    by (simp only: promise_all_iff set_map ball_simps)
  show ?thesis
    using run c1 c2 c3 c4 unfolding r a by blast
qed

theorem handleRecordUpdate_word_sets_witness:
  "\<exists>ups. handleRecordUpdate ascii_env example_index (\<lambda>u. Inr ()) ''r''
            (text_record ''a b c'') (text_record ''b a d a'') = Some (Inr (), ups) \<and>
     ups = [RemoveWord ''r'' ''c'', RemoveWord ''r'' ''a'', RemoveWord ''r'' ''b'',
            AddWord ''r'' ''d'' ''2'', AddWord ''r'' ''a'' ''1,3'', AddWord ''r'' ''b'' ''0''] \<and>
     {(q, w). RemoveWord q w \<in> set ups} = {''r''} \<times> {''c'', ''a'', ''b''}"
proof -
  let ?old = "text_record ''a b c''"
  let ?new = "text_record ''b a d a''"
  let ?oldTI = "\<lparr>ti_locale = ''en'',
      words = [(''a'', \<lparr>word = ''a'', indexes = [0], sourceIndexes = [0]\<rparr>),
               (''b'', \<lparr>word = ''b'', indexes = [1], sourceIndexes = [2]\<rparr>),
               (''c'', \<lparr>word = ''c'', indexes = [2], sourceIndexes = [4]\<rparr>)],
      ignored = []\<rparr>"
  let ?newTI = "\<lparr>ti_locale = ''en'',
      words = [(''b'', \<lparr>word = ''b'', indexes = [0], sourceIndexes = [0]\<rparr>),
               (''a'', \<lparr>word = ''a'', indexes = [1, 3], sourceIndexes = [2, 6]\<rparr>),
               (''d'', \<lparr>word = ''d'', indexes = [2], sourceIndexes = [4]\<rparr>)],
      ignored = []\<rparr>"
  have l1: "value_locale ascii_env example_index ?old = Some ''en''" by code_simp
  have l2: "value_locale ascii_env example_index ?new = Some ''en''" by code_simp
  have t1: "getTextInfo ascii_env example_index (update_text example_index ?old) (Some ''en'')
              = Some (Inr ?oldTI)" by code_simp
  have t2: "getTextInfo ascii_env example_index (update_text example_index ?new) (Some ''en'')
              = Some (Inr ?newTI)" by code_simp
  have run: "handleRecordUpdate ascii_env example_index (\<lambda>u. Inr ()) ''r'' ?old ?new
      = Some (Inr (), [RemoveWord ''r'' ''c'', RemoveWord ''r'' ''a'', RemoveWord ''r'' ''b'',
            AddWord ''r'' ''d'' ''2'', AddWord ''r'' ''a'' ''1,3'', AddWord ''r'' ''b'' ''0''])"
    by code_simp
  have ch: "changed_set ?oldTI ?newTI = {''a'', ''b''}"
    by (auto simp: changed_set_def toArray_def getWordInfo_def occurs_def)
  from handleRecordUpdate_word_sets[OF l1 l2 t1 t2, of "\<lambda>u. Inr ()" "''r''"] run ch
  show ?thesis by (auto simp: toArray_def)
qed

section \<open>Verification: queries\<close>

lemma wildcard_only_loop_Some:
  assumes "wildcard_only_loop ws info = Some info'"
  shows "find is_wildcard_only ws = None \<and> info' = info"
proof (rule wildcard_only_loop.raw_induct
    [where P = "\<lambda>ws info info'. find is_wildcard_only ws = None \<and> info' = info", OF _ assms])
  fix f ws info y
  assume IH: "\<And>ws info y. f ws info = Some y \<Longrightarrow> find is_wildcard_only ws = None \<and> y = info"
    and step: "(case find is_wildcard_only ws of None \<Rightarrow> Some info
               | Some w \<Rightarrow> f ws (info \<lparr>ignored := ignored info @ [w],
                                          words := map_delete w (words info)\<rparr>)) = Some y"
  show "find is_wildcard_only ws = None \<and> y = info"
  proof (cases "find is_wildcard_only ws")
    case None
    with step show ?thesis by simp
  next
    case (Some w)
    with step have "f ws (info \<lparr>ignored := ignored info @ [w],
                                words := map_delete w (words info)\<rparr>) = Some y" by simp
    from IH[OF this] Some show ?thesis by simp
  qed
qed

lemma wildcard_only_loop_None:
  "find is_wildcard_only ws = None \<Longrightarrow> wildcard_only_loop ws info = Some info"
  by (subst wildcard_only_loop.simps) simp

lemma wildcard_only_loop_diverges:
  "find is_wildcard_only ws \<noteq> None \<Longrightarrow> wildcard_only_loop ws info = None"
  by (metis wildcard_only_loop_Some not_Some_eq)

lemma contains_step_invalid:
  "op \<notin> set validOperators \<Longrightarrow> contains_step ctx q op val options = Some (Inl UnsupportedOperator, [])"
  by (simp add: contains_step_def)

text \<open>
  Claim C9.  \<open>query\<close> with a blacklisting operator fails as not implemented, and with an
  operator string other than the two valid ones it fails as unsupported, as \<open>contains\<close> itself
  does, in every case without a call to the substrate; so a \<open>query\<close> that returns a result set
  was given one of the two valid operators.
\<close>

theorem query_rejects_other_operators:
  "query ctx n OpBlacklisting val options = Some (Inl NotImplemented, []) \<and>
   (s \<noteq> ''fulltext:contains'' \<and> s \<noteq> ''fulltext:!contains'' \<longrightarrow>
      query ctx n (OpString s) val options = Some (Inl UnsupportedOperator, []) \<and>
      contains ctx (Suc n) s val options = Some (Inl UnsupportedOperator, [])) \<and>
   (query ctx n op val options = Some (Inr rs, calls) \<longrightarrow>
      op = OpString ''fulltext:contains'' \<or> op = OpString ''fulltext:!contains'')"
proof (intro conjI impI)
  show "query ctx n OpBlacklisting val options = Some (Inl NotImplemented, [])"
    by (simp add: query_def)
next
  assume s: "s \<noteq> ''fulltext:contains'' \<and> s \<noteq> ''fulltext:!contains''"
  then show "query ctx n (OpString s) val options = Some (Inl UnsupportedOperator, [])"
    by (simp add: query_def)
  from s have "s \<notin> set validOperators" by (simp add: validOperators_def)
  then show "contains ctx (Suc n) s val options = Some (Inl UnsupportedOperator, [])"
    by (simp add: contains_step_invalid)
next
  assume "query ctx n op val options = Some (Inr rs, calls)"
  then show "op = OpString ''fulltext:contains'' \<or> op = OpString ''fulltext:!contains''"
    by (cases op) (auto simp: query_def split: if_splits)
qed

theorem query_rejects_other_operators_witness:
  "query (example_context []) 1 (OpString ''like'') ''fox'' None = Some (Inl UnsupportedOperator, []) \<and>
   contains (example_context []) (Suc 1) ''like'' ''fox'' None = Some (Inl UnsupportedOperator, []) \<and>
   query (example_context []) 1 OpBlacklisting ''fox'' None = Some (Inl NotImplemented, [])"
proof -
  have h: "''like'' \<noteq> ''fulltext:contains'' \<and> ''like'' \<noteq> ''fulltext:!contains''" by simp
  from query_rejects_other_operators[of "example_context []" 1 "''fox''" None "''like''"] h
  show ?thesis by blast
qed

lemma prune_fold:
  "words (fold (prune_step m) ws info)
     = filter (\<lambda>e. \<not> (fst e \<in> set ws \<and> short_wildcard m (fst e))) (words info) \<and>
   ignored (fold (prune_step m) ws info) = ignored info @ filter (short_wildcard m) ws"
proof (induction ws arbitrary: info)
  case Nil
  then show ?case by simp
next
  case (Cons w ws)
  show ?case
  proof (cases "short_wildcard m w")
    case True
    have "filter (\<lambda>e. \<not> (fst e \<in> set ws \<and> short_wildcard m (fst e))) (map_delete w (words info))
            = filter (\<lambda>e. \<not> (fst e \<in> set (w # ws) \<and> short_wildcard m (fst e))) (words info)"
      using True by (auto simp: map_delete_def intro: filter_cong)
    with True Cons[of "info \<lparr>ignored := ignored info @ [w], words := map_delete w (words info)\<rparr>"]
    show ?thesis by (simp add: prune_step_def)
  next
    case False
    have "filter (\<lambda>e. \<not> (fst e \<in> set ws \<and> short_wildcard m (fst e))) (words info)
            = filter (\<lambda>e. \<not> (fst e \<in> set (w # ws) \<and> short_wildcard m (fst e))) (words info)"
      using False by (auto intro: filter_cong)
    with False Cons[of info] show ?thesis by (simp add: prune_step_def)
  qed
qed

lemma prune_wildcards_keys:
  "\<exists>P. words (prune_wildcards options ws info) = filter P (words info)"
proof (cases "q_minimumWildcardWordLength options")
  case None
  then have "words (prune_wildcards options ws info) = filter (\<lambda>e. True) (words info)"
    by (simp add: prune_wildcards_def)
  then show ?thesis by blast
next
  case (Some m)
  show ?thesis
  proof (cases "m > 0")
    case True
    with Some prune_fold[of m ws info] show ?thesis by (auto simp: prune_wildcards_def)
  next
    case False
    with Some have "words (prune_wildcards options ws info) = filter (\<lambda>e. True) (words info)"
      by (simp add: prune_wildcards_def)
    then show ?thesis by blast
  qed
qed

lemma query_getTextInfo_Some:
  assumes "query_getTextInfo env ix options text = Some (Inr info)"
  shows "\<exists>info0. TextInfo_new env (TStr text) (query_TextInfoOptions ix options) = Some (Inr info0) \<and>
           find is_wildcard_only (toArray info0) = None \<and>
           info = prune_wildcards options (toArray info0) info0"
proof -
  from assms obtain info0 info1 where
    t: "TextInfo_new env (TStr text) (query_TextInfoOptions ix options) = Some (Inr info0)" and
    l: "wildcard_only_loop (toArray info0) info0 = Some info1" and
    i: "info = prune_wildcards options (toArray info0) info1"
    by (auto simp: query_getTextInfo_def split: option.splits sum.splits)
  from wildcard_only_loop_Some[OF l] t i show ?thesis by auto
qed

lemma query_words_distinct:
  assumes "query_getTextInfo env ix options text = Some (Inr info)"
  shows "distinct (toArray info)"
proof -
  from query_getTextInfo_Some[OF assms] obtain info0 where
    t: "TextInfo_new env (TStr text) (query_TextInfoOptions ix options) = Some (Inr info0)" and
    i: "info = prune_wildcards options (toArray info0) info0" by blast
  from TextInfo_new_inv[OF t] have "distinct (map fst (words info0))" by (auto simp: tok_inv_def)
  moreover from prune_wildcards_keys[of options "toArray info0" info0] i
  obtain P where "words info = filter P (words info0)" by auto
  ultimately show ?thesis by (simp add: toArray_def distinct_map_filter)
qed

lemma sorted_hd_least:
  "sorted (map f xs) \<Longrightarrow> x \<in> set xs \<Longrightarrow> f (hd xs) \<le> f x"
  by (cases xs) auto

lemma zero_counts:
  fixes cnt :: "string \<Rightarrow> nat"
  assumes "distinct ws"
  defines "counts \<equiv> sort_key snd (map (\<lambda>w. (w, cnt w)) ws)"
  shows "distinct (map fst (filter (\<lambda>c. snd c = 0) counts))"
    and "set (map fst (filter (\<lambda>c. snd c = 0) counts)) = {w \<in> set ws. cnt w = 0}"
    and "(\<exists>w\<in>set ws. cnt w = 0) \<Longrightarrow> snd (hd counts) = 0"
proof -
  have d: "distinct (map fst counts)"
  proof -
    have "distinct (map (\<lambda>w. (w, cnt w)) ws)"
      using assms(1) by (simp add: distinct_map inj_on_def)
    then have "distinct counts" by (simp add: counts_def)
    moreover have "inj_on fst (set counts)" by (auto simp: counts_def inj_on_def)
    ultimately show ?thesis by (simp add: distinct_map)
  qed
  then show "distinct (map fst (filter (\<lambda>c. snd c = 0) counts))"
    by (rule distinct_map_filter)
  show "set (map fst (filter (\<lambda>c. snd c = 0) counts)) = {w \<in> set ws. cnt w = 0}"
    by (auto simp: counts_def image_iff)
  show "snd (hd counts) = 0" if "\<exists>w\<in>set ws. cnt w = 0"
  proof -
    from that obtain w where w: "w \<in> set ws" "cnt w = 0" by blast
    then have "(w, cnt w) \<in> set counts" by (simp add: counts_def)
    moreover have "sorted (map snd counts)" by (simp add: counts_def)
    ultimately have "snd (hd counts) \<le> snd (w, cnt w)" by (rule sorted_hd_least[rotated])
    with w show ?thesis by simp
  qed
qed

text \<open>
  Claim C7.  A query without \<open>OR\<close> and without quotes that misses the cache and has a surviving
  word with substrate count 0 returns an empty result set whose hints are the ignored-word
  hints followed by one missing-word hint for every word with count 0; the calls it makes are
  the cache read, one count per word and the cache write of that result set under the
  operator and the query string, and no substrate query.
\<close>

theorem zero_count_empty_result:
  assumes miss: "s_cache (qc_substrate ctx) ''fulltext:contains'' val = None"
    and no_or: "\<not> includes_str '' OR '' val"
    and no_quote: "CHR 0x22 \<notin> set val"
    and info: "query_getTextInfo (qc_env ctx) (qc_index ctx)
                 (case options of None \<Rightarrow> default_query_options | Some opts \<Rightarrow> opts) val
               = Some (Inr info)"
    and zero: "\<exists>w\<in>set (toArray info). s_count (qc_substrate ctx) (wordOp w) w = 0"
  shows "\<exists>rs zs.
     contains ctx (Suc n) ''fulltext:contains'' val options
       = Some (Inr rs, CacheRead ''fulltext:contains'' val
                 # map (\<lambda>w. CountCall (wordOp w) w) (toArray info)
                 @ [CacheWrite ''fulltext:contains'' val rs]) \<and>
     items rs = [] \<and>
     hints rs = map ignoredWord (ignored info) @ map missingWord zs \<and>
     distinct zs \<and>
     set zs = {w \<in> set (toArray info). s_count (qc_substrate ctx) (wordOp w) w = 0}"
proof -
  let ?opts = "case options of None \<Rightarrow> default_query_options | Some opts \<Rightarrow> opts"
  let ?op = "''fulltext:contains''"
  let ?cnt = "\<lambda>w. s_count (qc_substrate ctx) (wordOp w) w"
  let ?ws = "toArray info"
  let ?counts = "sort_key snd (map (\<lambda>w. (w, ?cnt w)) ?ws)"
  let ?zs = "map fst (filter (\<lambda>c. snd c = 0) ?counts)"
  let ?rs = "\<lparr> items = [], filterKey = Some (key (qc_index ctx)),
               hints = map ignoredWord (ignored info) @ map missingWord ?zs \<rparr>"
  have d: "distinct ?ws" by (rule query_words_distinct[OF info])
  from zero have ne: "?ws \<noteq> []" by auto
  have hd0: "snd (hd ?counts) = 0" using zero_counts(3)[OF d, of ?cnt] zero by blast
  have bare: "bare_words ctx ?op val ?opts
        = Some (Inr ?rs, map (\<lambda>w. CountCall (wordOp w) w) ?ws @ [CacheWrite ?op val ?rs])"
    using info ne hd0
    by (simp add: bare_words_def Let_def addIgnoredWordHints_def fromResults_def comp_def)
  have valid: "?op \<in> set validOperators" by (simp add: validOperators_def)
  have step: "contains ctx (Suc n) ?op val options
        = Some (Inr ?rs, CacheRead ?op val # map (\<lambda>w. CountCall (wordOp w) w) ?ws
                  @ [CacheWrite ?op val ?rs])"
    using valid miss no_or no_quote bare by (simp add: contains_step_def)
  show ?thesis
    using step zero_counts(1,2)[OF d, of ?cnt]
    by (intro exI[of _ ?rs] exI[of _ ?zs]) simp
qed

theorem zero_count_empty_result_witness:
  "\<exists>rs zs.
     contains (example_context example_table) (Suc 0) ''fulltext:contains'' ''a zz'' None
       = Some (Inr rs, CacheRead ''fulltext:contains'' ''a zz''
                 # map (\<lambda>w. CountCall (wordOp w) w) [''a'', ''zz'']
                 @ [CacheWrite ''fulltext:contains'' ''a zz'' rs]) \<and>
     items rs = [] \<and> hints rs = map missingWord zs \<and> distinct zs \<and> set zs = {''zz''}"
proof -
  let ?ctx = "example_context example_table"
  let ?info = "\<lparr>ti_locale = ''en'',
      words = [(''a'', \<lparr>word = ''a'', indexes = [0], sourceIndexes = [0]\<rparr>),
               (''zz'', \<lparr>word = ''zz'', indexes = [1], sourceIndexes = [2]\<rparr>)],
      ignored = []\<rparr>"
  have miss: "s_cache (qc_substrate ?ctx) ''fulltext:contains'' ''a zz'' = None"
    by (simp add: example_context_def table_substrate_def)
  have no_or: "\<not> includes_str '' OR '' ''a zz''" by simp
  have no_quote: "CHR 0x22 \<notin> set ''a zz''" by simp
  have info: "query_getTextInfo (qc_env ?ctx) (qc_index ?ctx)
                 (case None of None \<Rightarrow> default_query_options | Some opts \<Rightarrow> opts) ''a zz''
               = Some (Inr ?info)"
    by code_simp
  have ca: "s_count (qc_substrate ?ctx) (wordOp ''a'') ''a'' = 2" by code_simp
  have cz: "s_count (qc_substrate ?ctx) (wordOp ''zz'') ''zz'' = 0" by code_simp
  have zero: "\<exists>w\<in>set (toArray ?info). s_count (qc_substrate ?ctx) (wordOp w) w = 0"
    using cz by (simp add: toArray_def)
  have zs: "{w \<in> set (toArray ?info). s_count (qc_substrate ?ctx) (wordOp w) w = 0} = {''zz''}"
    using ca cz by (auto simp: toArray_def)
  from zero_count_empty_result[OF miss no_or no_quote info zero, of 0] zs
  show ?thesis by (simp add: toArray_def)
qed

lemma bare_words_hints:
  assumes "bare_words ctx op val options = Some (Inr rs, calls)"
    and "query_getTextInfo (qc_env ctx) (qc_index ctx) options val = Some (Inr info)"
  shows "ignoredWord ` set (ignored info) \<subseteq> set (hints rs)"
proof -
  let ?ix = "qc_index ctx" and ?sub = "qc_substrate ctx"
  let ?ws = "toArray info"
  show ?thesis
  proof (cases "?ws = []")
    case True
    with assms show ?thesis
      by (auto simp: bare_words_def Let_def addIgnoredWordHints_def fromResults_def)
  next
    case ne: False
    show ?thesis
    proof (cases "op = ''fulltext:!contains''")
      case True
      with assms ne show ?thesis
        by (auto simp: bare_words_def Let_def addIgnoredWordHints_def)
    next
      case pos: False
      let ?counts = "sort_key snd (map (\<lambda>w. (w, s_count ?sub (wordOp w) w)) ?ws)"
      show ?thesis
      proof (cases "snd (hd ?counts) = 0")
        case True
        with assms ne pos show ?thesis
          by (auto simp: bare_words_def Let_def addIgnoredWordHints_def fromResults_def)
      next
        case False
        obtain lr rpw qcalls where nw:
          "nextWord ?sub ?ws (map fst ?counts) None (replicate (length ?ws) None) = (lr, rpw, qcalls)"
          using prod_cases3 by blast
        let ?cc = "map (\<lambda>w. CountCall (wordOp w) w) ?ws"
        let ?inner = "\<lambda>kfr. if q_phrase options = Some True \<and> length (map fst ?counts) > 1
            then map_sum id (\<lambda>ms. \<lparr> items = ms, filterKey = None, hints = [] \<rparr>)
                   (phrase_reduce (fst kfr) rpw)
            else Inr (snd kfr)"
        let ?fin = "\<lambda>results. addIgnoredWordHints info (results \<lparr> filterKey := Some (key ?ix) \<rparr>)"
        have eq: "bare_words ctx op val options =
            (case lr of
               None \<Rightarrow> Some (Inl TypeError, ?cc @ qcalls)
             | Some fr \<Rightarrow>
                 (case ?inner fr of
                    Inl e \<Rightarrow> Some (Inl e, ?cc @ qcalls)
                  | Inr results \<Rightarrow>
                      Some (Inr (?fin results), ?cc @ qcalls @ [CacheWrite op val (?fin results)])))"
          using assms(2) ne pos False nw
          by (simp add: bare_words_def Let_def split: option.splits sum.splits prod.splits)
        show ?thesis
        proof (cases lr)
          case None
          with eq assms(1) show ?thesis by simp
        next
          case (Some fr)
          show ?thesis
          proof (cases "?inner fr")
            case (Inl e)
            with eq Some assms(1) show ?thesis by simp
          next
            case (Inr results)
            with eq Some assms(1) have "rs = ?fin results" by simp
            then show ?thesis by (simp add: addIgnoredWordHints_def)
          qed
        qed
      qed
    qed
  qed
qed

text \<open>
  Claim C6, as amended.  When no token of the query consists of wildcard characters only, query
  tokenization returns; the tokens it removes from the word set are exactly those whose first
  \<open>*\<close> stands at a position \<open>p\<close> with \<open>0 < p < minimumWildcardWordLength\<close>, each of them is
  appended to the ignored list, and a result set that the path of a query without \<open>OR\<close> and
  quotes returns carries an \<open>ignoredWord\<close> hint for every ignored token.
\<close>

theorem query_getTextInfo_prunes:
  assumes tok: "TextInfo_new (qc_env ctx) (TStr val) (query_TextInfoOptions (qc_index ctx) options)
                  = Some (Inr info0)"
    and none_only: "\<forall>w\<in>set (toArray info0). \<not> is_wildcard_only w"
    and min: "q_minimumWildcardWordLength options = Some m"
  shows "\<exists>info. query_getTextInfo (qc_env ctx) (qc_index ctx) options val = Some (Inr info) \<and>
     toArray info
       = filter (\<lambda>w. \<not> (0 < indexOf CHR ''*'' w \<and> indexOf CHR ''*'' w < m)) (toArray info0) \<and>
     ignored info
       = ignored info0 @ filter (\<lambda>w. 0 < indexOf CHR ''*'' w \<and> indexOf CHR ''*'' w < m) (toArray info0) \<and>
     (\<forall>op rs calls. bare_words ctx op val options = Some (Inr rs, calls) \<longrightarrow>
        ignoredWord ` set (ignored info) \<subseteq> set (hints rs))"
proof -
  let ?ws = "toArray info0"
  let ?info = "prune_wildcards options ?ws info0"
  from none_only have "find is_wildcard_only ?ws = None" by (simp add: find_None_iff)
  then have loop: "wildcard_only_loop ?ws info0 = Some info0" by (rule wildcard_only_loop_None)
  with tok have q: "query_getTextInfo (qc_env ctx) (qc_index ctx) options val = Some (Inr ?info)"
    by (simp add: query_getTextInfo_def)
  have w: "words ?info = filter (\<lambda>e. \<not> short_wildcard m (fst e)) (words info0)"
   and i: "ignored ?info = ignored info0 @ filter (short_wildcard m) ?ws"
  proof -
    show "words ?info = filter (\<lambda>e. \<not> short_wildcard m (fst e)) (words info0)"
    proof (cases "m > 0")
      case True
      with min prune_fold[of m ?ws info0] show ?thesis
        by (auto simp: prune_wildcards_def toArray_def intro: filter_cong)
    next
      case False
      then have "\<not> short_wildcard m x" for x by (auto simp: short_wildcard_def)
      with False min show ?thesis by (simp add: prune_wildcards_def)
    qed
    show "ignored ?info = ignored info0 @ filter (short_wildcard m) ?ws"
    proof (cases "m > 0")
      case True
      with min prune_fold[of m ?ws info0] show ?thesis by (simp add: prune_wildcards_def)
    next
      case False
      then have "\<not> short_wildcard m x" for x by (auto simp: short_wildcard_def)
      with False min show ?thesis by (simp add: prune_wildcards_def)
    qed
  qed
  have a: "toArray ?info = filter (\<lambda>w. \<not> short_wildcard m w) ?ws"
  proof -
    have "toArray ?info = map fst (words ?info)" by (rule toArray_def)
    also have "\<dots> = map fst (filter (\<lambda>e. \<not> short_wildcard m (fst e)) (words info0))"
      by (simp only: w)
    also have "\<dots> = filter (\<lambda>w. \<not> short_wildcard m w) ?ws"
      by (simp add: toArray_def filter_map comp_def)
    finally show ?thesis .
  qed
  have h: "\<forall>op rs calls. bare_words ctx op val options = Some (Inr rs, calls) \<longrightarrow>
        ignoredWord ` set (ignored ?info) \<subseteq> set (hints rs)"
    using bare_words_hints[OF _ q] by blast
  show ?thesis
    using q a i h unfolding short_wildcard_def by blast
qed

theorem query_getTextInfo_prunes_witness:
  "\<exists>info. query_getTextInfo ascii_env example_index default_query_options ''a* br* fox'' = Some (Inr info) \<and>
     toArray info = [''br*'', ''fox''] \<and> ignored info = [''a*'']"
proof -
  let ?ctx = "example_context []"
  let ?info0 = "\<lparr>ti_locale = ''en'',
      words = [(''a*'', \<lparr>word = ''a*'', indexes = [0], sourceIndexes = [0]\<rparr>),
               (''br*'', \<lparr>word = ''br*'', indexes = [1], sourceIndexes = [3]\<rparr>),
               (''fox'', \<lparr>word = ''fox'', indexes = [2], sourceIndexes = [7]\<rparr>)],
      ignored = []\<rparr>"
  have tok: "TextInfo_new (qc_env ?ctx) (TStr ''a* br* fox'')
               (query_TextInfoOptions (qc_index ?ctx) default_query_options) = Some (Inr ?info0)"
    by code_simp
  have none_only: "\<forall>w\<in>set (toArray ?info0). \<not> is_wildcard_only w"
    by (simp add: toArray_def is_wildcard_only_def)
  have min: "q_minimumWildcardWordLength default_query_options = Some 2"
    by (simp add: default_query_options_def)
  have e: "qc_env ?ctx = ascii_env" "qc_index ?ctx = example_index"
    by (simp_all add: example_context_def)
  have f: "filter (\<lambda>w. \<not> (0 < indexOf CHR ''*'' w \<and> indexOf CHR ''*'' w < 2)) (toArray ?info0)
             = [''br*'', ''fox'']"
    "filter (\<lambda>w. 0 < indexOf CHR ''*'' w \<and> indexOf CHR ''*'' w < 2) (toArray ?info0) = [''a*'']"
    by (simp_all add: toArray_def indexOf_def)
  from query_getTextInfo_prunes[OF tok none_only min] show ?thesis
    unfolding e f by auto
qed

text \<open>
  Claim C6 as stated fails for a token that starts with \<open>*\<close>: the first \<open>*\<close> of \<open>*ab\<close> stands at
  position 0, below the default minimum 2, and the token is neither removed nor ignored.
\<close>

theorem leading_wildcard_kept:
  "indexOf CHR ''*'' ''*ab'' = 0 \<and>
   query_getTextInfo ascii_env example_index default_query_options ''*ab fox''
     = Some (Inr \<lparr>ti_locale = ''en'',
          words = [(''*ab'', \<lparr>word = ''*ab'', indexes = [0], sourceIndexes = [0]\<rparr>),
                   (''fox'', \<lparr>word = ''fox'', indexes = [1], sourceIndexes = [4]\<rparr>)],
          ignored = []\<rparr>)"
  by code_simp

text \<open>
  A query with a token of wildcard characters only never returns: the loop of lines 673-678
  searches an array it does not change.
\<close>

theorem wildcard_only_never_returns:
  assumes "TextInfo_new (qc_env ctx) (TStr val) (query_TextInfoOptions (qc_index ctx)
              (case options of None \<Rightarrow> default_query_options | Some opts \<Rightarrow> opts)) = Some (Inr info0)"
    and "w \<in> set (toArray info0)" and "is_wildcard_only w"
    and "op = ''fulltext:contains'' \<or> op = ''fulltext:!contains''"
    and "s_cache (qc_substrate ctx) op val = None"
    and "\<not> includes_str '' OR '' val" and "CHR 0x22 \<notin> set val"
  shows "contains ctx (Suc n) op val options = None"
proof -
  let ?opts = "case options of None \<Rightarrow> default_query_options | Some opts \<Rightarrow> opts"
  from assms(2,3) have "find is_wildcard_only (toArray info0) \<noteq> None"
    by (auto simp: find_None_iff)
  then have "wildcard_only_loop (toArray info0) info0 = None"
    by (rule wildcard_only_loop_diverges)
  with assms(1) have "query_getTextInfo (qc_env ctx) (qc_index ctx) ?opts val = None"
    by (simp add: query_getTextInfo_def)
  then have "bare_words ctx op val ?opts = None" by (simp add: bare_words_def)
  with assms(4-7) show ?thesis by (auto simp: contains_step_def validOperators_def)
qed

theorem wildcard_only_never_returns_witness:
  "\<forall>n. contains (example_context example_table) (Suc n) ''fulltext:contains'' ''a *'' None = None"
proof -
  let ?ctx = "example_context example_table"
  let ?info0 = "\<lparr>ti_locale = ''en'',
      words = [(''a'', \<lparr>word = ''a'', indexes = [0], sourceIndexes = [0]\<rparr>),
               (''*'', \<lparr>word = ''*'', indexes = [1], sourceIndexes = [2]\<rparr>)],
      ignored = []\<rparr>"
  have tok: "TextInfo_new (qc_env ?ctx) (TStr ''a *'') (query_TextInfoOptions (qc_index ?ctx)
              (case None of None \<Rightarrow> default_query_options | Some opts \<Rightarrow> opts)) = Some (Inr ?info0)"
    by code_simp
  have w: "''*'' \<in> set (toArray ?info0)" "is_wildcard_only ''*''"
    by (simp_all add: toArray_def is_wildcard_only_def)
  have miss: "s_cache (qc_substrate ?ctx) ''fulltext:contains'' ''a *'' = None"
    by (simp add: example_context_def table_substrate_def)
  show ?thesis
    by (intro allI, rule wildcard_only_never_returns[OF tok w _ miss]) simp_all
qed

section \<open>Verification: the \<open>OR\<close> path\<close>

lemma includes_str_at:
  "i \<le> length s \<Longrightarrow> take (length sub) (drop i s) = sub \<Longrightarrow> includes_str sub s"
proof (induction s arbitrary: i)
  case Nil
  then show ?case by auto
next
  case (Cons c cs)
  show ?case
  proof (cases i)
    case 0
    with Cons.prems show ?thesis by simp
  next
    case (Suc j)
    with Cons.prems have "j \<le> length cs" "take (length sub) (drop j cs) = sub" by auto
    with Cons.IH show ?thesis by simp
  qed
qed

lemma split_at_no_sep:
  "\<not> includes_str sep s \<Longrightarrow> split_at sep cur s = [cur @ s]"
  by (induction sep cur s rule: split_at.induct) auto

lemma split_at_first:
  assumes "sep \<noteq> []"
    and "\<forall>i<length A. take (length sep) (drop i (A @ sep @ B)) \<noteq> sep"
  shows "split_at sep cur (A @ sep @ B) = (cur @ A) # split_at sep [] B"
  using assms(2)
proof (induction A arbitrary: cur)
  case Nil
  from assms(1) obtain c cs where sep: "sep = c # cs" by (cases sep) auto
  then show ?case by simp
next
  case (Cons a A)
  from Cons.prems have here: "take (length sep) ((a # A) @ sep @ B) \<noteq> sep"
    by (metis drop0 length_greater_0_conv list.distinct(1))
  have later: "\<forall>i<length A. take (length sep) (drop i (A @ sep @ B)) \<noteq> sep"
  proof (intro allI impI)
    fix i assume "i < length A"
    then have "Suc i < length (a # A)" by simp
    with Cons.prems have "take (length sep) (drop (Suc i) ((a # A) @ sep @ B)) \<noteq> sep" by blast
    then show "take (length sep) (drop i (A @ sep @ B)) \<noteq> sep" by simp
  qed
  from here have "split_at sep cur ((a # A) @ sep @ B) = split_at sep (cur @ [a]) (A @ sep @ B)"
    by simp
  also have "\<dots> = ((cur @ [a]) @ A) # split_at sep [] B" by (rule Cons.IH[OF later])
  finally show ?case by simp
qed

lemma no_early_OR:
  assumes A: "\<not> includes_str '' OR '' A" and tail: "drop (length A - 3) A \<noteq> '' OR''"
  shows "\<forall>i<length A. take (length '' OR '') (drop i (A @ '' OR '' @ B)) \<noteq> '' OR ''"
proof (intro allI impI notI)
  fix i assume i: "i < length A" and eq: "take (length '' OR '') (drop i (A @ '' OR '' @ B)) = '' OR ''"
  define S where "S = drop i A"
  have SA: "drop i (A @ '' OR '' @ B) = S @ '' OR '' @ B" using i by (simp add: S_def)
  have lenS: "length S = length A - i" by (simp add: S_def)
  have eq': "take (length '' OR '') (S @ '' OR '' @ B) = '' OR ''" using eq unfolding SA .
  consider c1 where "S = [c1]" | c1 c2 where "S = [c1, c2]" | c1 c2 c3 where "S = [c1, c2, c3]"
    | c1 c2 c3 c4 S' where "S = c1 # c2 # c3 # c4 # S'"
  proof -
    from i lenS have "S \<noteq> []" by auto
    then obtain c1 T1 where 1: "S = c1 # T1" by (cases S) auto
    show ?thesis
    proof (cases T1)
      case Nil with 1 that(1) show ?thesis by simp
    next
      case (Cons c2 T2)
      note 2 = this
      show ?thesis
      proof (cases T2)
        case Nil with 1 2 that(2) show ?thesis by simp
      next
        case (Cons c3 T3)
        note 3 = this
        show ?thesis
        proof (cases T3)
          case Nil with 1 2 3 that(3) show ?thesis by simp
        next
          case (Cons c4 T4)
          with 1 2 3 that(4) show ?thesis by simp
        qed
      qed
    qed
  qed
  then show False
  proof cases
    case 1
    with eq' show False by simp
  next
    case 2
    with eq' show False by simp
  next
    case 3
    with eq' have S: "S = '' OR''" by simp
    with lenS i have "i = length A - 3" by simp
    with S tail show False by (simp add: S_def)
  next
    case 4
    with eq' have "take (length '' OR '') S = '' OR ''" by simp
    then have "take (length '' OR '') (drop i A) = '' OR ''" by (simp only: S_def)
    with includes_str_at[of i A "'' OR ''"] i A show False by simp
  qed
qed

lemma split_OR:
  assumes "\<not> includes_str '' OR '' A" and "\<not> includes_str '' OR '' B"
    and "drop (length A - 3) A \<noteq> '' OR''"
  shows "split_str '' OR '' (A @ '' OR '' @ B) = [A, B]"
proof -
  have "split_at '' OR '' [] (A @ '' OR '' @ B) = ([] @ A) # split_at '' OR '' [] B"
    by (rule split_at_first[OF _ no_early_OR[OF assms(1,3)]]) simp
  with split_at_no_sep[OF assms(2), of "[]"] show ?thesis by (simp add: split_str_def)
qed

lemma includes_OR: "includes_str '' OR '' (A @ '' OR '' @ B)"
  by (rule includes_str_at[of "length A"]) simp_all

lemma merge_into_union:
  "\<exists>zs. merge_into xs ys = xs @ zs \<and> distinct (map path zs) \<and>
        path ` set zs = path ` set ys - path ` set xs \<and>
        (\<forall>z\<in>set zs. find (\<lambda>r. path r = path z) ys = Some z) \<and> subseq zs ys"
proof (induction ys arbitrary: xs)
  case Nil
  then show ?case by simp
next
  case (Cons r rs)
  show ?case
  proof (cases "path r \<in> path ` set xs")
    case True
    then have "list_ex (\<lambda>m. path m = path r) xs" by (auto simp: list_ex_iff)
    then have m: "merge_into xs (r # rs) = merge_into xs rs" by simp
    from Cons[of xs] obtain zs where zs: "merge_into xs rs = xs @ zs" "distinct (map path zs)"
      "path ` set zs = path ` set rs - path ` set xs"
      "\<forall>z\<in>set zs. find (\<lambda>r. path r = path z) rs = Some z" "subseq zs rs" by blast
    have "\<forall>z\<in>set zs. find (\<lambda>q. path q = path z) (r # rs) = Some z"
    proof
      fix z assume z: "z \<in> set zs"
      with zs(3) True have "path r \<noteq> path z" by (metis DiffD2 imageI)
      with zs(4) z show "find (\<lambda>q. path q = path z) (r # rs) = Some z" by simp
    qed
    moreover have "path ` set zs = path ` set (r # rs) - path ` set xs" using zs(3) True by auto
    moreover have "subseq zs (r # rs)" using zs(5) by (rule list_emb_Cons)
    ultimately show ?thesis using m zs(1,2) by (intro exI[of _ zs]) simp
  next
    case False
    then have "\<not> list_ex (\<lambda>m. path m = path r) xs"
      by (auto simp: list_ex_iff intro: rev_image_eqI)
    then have m: "merge_into xs (r # rs) = merge_into (xs @ [r]) rs" by simp
    from Cons[of "xs @ [r]"] obtain zs where zs: "merge_into (xs @ [r]) rs = (xs @ [r]) @ zs"
      "distinct (map path zs)" "path ` set zs = path ` set rs - path ` set (xs @ [r])"
      "\<forall>z\<in>set zs. find (\<lambda>r. path r = path z) rs = Some z" "subseq zs rs" by blast
    have nr: "path r \<notin> path ` set zs" using zs(3) by auto
    have "\<forall>z\<in>set (r # zs). find (\<lambda>q. path q = path z) (r # rs) = Some z"
    proof
      fix z assume "z \<in> set (r # zs)"
      then consider "z = r" | "z \<in> set zs" by auto
      then show "find (\<lambda>q. path q = path z) (r # rs) = Some z"
      proof cases
        case 1 then show ?thesis by simp
      next
        case 2
        with nr have "path r \<noteq> path z" by (metis imageI)
        with zs(4) 2 show ?thesis by simp
      qed
    qed
    moreover have "path ` set (r # zs) = path ` set (r # rs) - path ` set xs"
      using zs(3) False by auto
    moreover have "distinct (map path (r # zs))" using zs(2) nr by simp
    ultimately show ?thesis using m zs(1,5) by (intro exI[of _ "r # zs"]) simp
  qed
qed

text \<open>
  Claim C5, as amended.  For a valid operator, branches \<open>A\<close> and \<open>B\<close> without \<open>OR\<close> in them, \<open>A\<close> not
  ending in \<open>" OR"\<close>, and no cache entry for the whole string: when the two branch queries
  return \<open>ra\<close> and \<open>rb\<close>, the query of \<open>A OR B\<close> returns the matches of \<open>ra\<close> followed by those
  matches of \<open>rb\<close>, in their order, that are the first of \<open>rb\<close> with their path and whose path
  is not in \<open>ra\<close>; its hints are the hints of \<open>ra\<close> followed by those of \<open>rb\<close>.
\<close>

theorem or_query_is_union:
  assumes op: "op = ''fulltext:contains'' \<or> op = ''fulltext:!contains''"
    and miss: "s_cache (qc_substrate ctx) op (A @ '' OR '' @ B) = None"
    and A: "\<not> includes_str '' OR '' A"
    and B: "\<not> includes_str '' OR '' B"
    and tail: "drop (length A - 3) A \<noteq> '' OR''"
    and opts: "opts = (case options of None \<Rightarrow> default_query_options | Some given \<Rightarrow> given)"
    and qa: "query ctx n (OpString op) A (Some opts) = Some (Inr ra, ca)"
    and qb: "query ctx n (OpString op) B (Some opts) = Some (Inr rb, cb)"
  shows "\<exists>zs.
     query ctx (Suc n) (OpString op) (A @ '' OR '' @ B) options
       = Some (Inr \<lparr> items = items ra @ zs, filterKey = Some (key (qc_index ctx)),
                     hints = hints ra @ hints rb \<rparr>,
               CacheRead op (A @ '' OR '' @ B) # ca @ cb) \<and>
     distinct (map path zs) \<and>
     path ` set zs = path ` set (items rb) - path ` set (items ra) \<and>
     (\<forall>z\<in>set zs. find (\<lambda>r. path r = path z) (items rb) = Some z) \<and>
     subseq zs (items rb) \<and>
     path ` set (items ra @ zs) = path ` set (items ra) \<union> path ` set (items rb)"
proof -
  let ?val = "A @ '' OR '' @ B"
  let ?q = "\<lambda>v. if op = ''fulltext:contains'' \<or> op = ''fulltext:!contains''
                then contains ctx n op v (Some opts) else Some (Inl UnsupportedOperator, [])"
  from merge_into_union[of "items ra" "items rb"] obtain zs where
    zs: "merge_into (items ra) (items rb) = items ra @ zs" "distinct (map path zs)"
      "path ` set zs = path ` set (items rb) - path ` set (items ra)"
      "\<forall>z\<in>set zs. find (\<lambda>r. path r = path z) (items rb) = Some z" "subseq zs (items rb)"
    by blast
  have ca': "?q A = Some (Inr ra, ca)" and cb': "?q B = Some (Inr rb, cb)"
    using qa qb op by (auto simp: query_def)
  have run: "run_queries ?q (split_str '' OR '' ?val) = Some (Inr [ra, rb], ca @ cb)"
    unfolding split_OR[OF A B tail] using ca' cb' by simp
  have merge: "or_merge (qc_index ctx) [ra, rb]
      = Inr \<lparr> items = items ra @ zs, filterKey = Some (key (qc_index ctx)),
               hints = hints ra @ hints rb \<rparr>"
    by (simp add: or_merge_def fromResults_def zs(1))
  have orq: "or_query ctx ?q ?val
      = Some (Inr \<lparr> items = items ra @ zs, filterKey = Some (key (qc_index ctx)),
                     hints = hints ra @ hints rb \<rparr>, ca @ cb)"
    using run merge by (simp add: or_query_def)
  have valid: "op \<in> set validOperators" using op by (auto simp: validOperators_def)
  have "contains ctx (Suc n) op ?val options
      = Some (Inr \<lparr> items = items ra @ zs, filterKey = Some (key (qc_index ctx)),
                     hints = hints ra @ hints rb \<rparr>, CacheRead op ?val # ca @ cb)"
    using valid miss includes_OR[of A B] orq unfolding opts by (simp add: contains_step_def)
  then have "query ctx (Suc n) (OpString op) ?val options
      = Some (Inr \<lparr> items = items ra @ zs, filterKey = Some (key (qc_index ctx)),
                     hints = hints ra @ hints rb \<rparr>, CacheRead op ?val # ca @ cb)"
    using op by (auto simp: query_def)
  moreover have "path ` set (items ra @ zs) = path ` set (items ra) \<union> path ` set (items rb)"
    using zs(3) by auto
  ultimately show ?thesis using zs(2-5) by blast
qed

theorem or_query_is_union_witness:
  "\<exists>zs ra rb ca cb.
     query (example_context example_table) 1 (OpString ''fulltext:contains'') ''y'' (Some default_query_options)
       = Some (Inr ra, ca) \<and>
     query (example_context example_table) 1 (OpString ''fulltext:contains'') ''x'' (Some default_query_options)
       = Some (Inr rb, cb) \<and>
     query (example_context example_table) (Suc 1) (OpString ''fulltext:contains'') (''y'' @ '' OR '' @ ''x'') None
       = Some (Inr \<lparr> items = items ra @ zs, filterKey = Some ''text'', hints = hints ra @ hints rb \<rparr>,
               CacheRead ''fulltext:contains'' (''y'' @ '' OR '' @ ''x'') # ca @ cb) \<and>
     map path (items ra) = [''r1''] \<and> map path (items rb) = [''r1'', ''r3''] \<and>
     path ` set zs = {''r3''}"
proof -
  let ?ctx = "example_context example_table"
  let ?op = "''fulltext:contains''"
  let ?ra = "\<lparr>items = [\<lparr>path = ''r1'', metadata_occurs = OccursString ''4''\<rparr>],
              filterKey = Some ''text'', hints = []\<rparr>"
  let ?ca = "[CacheRead ?op ''y'', CountCall ''=='' ''y'', QueryCall ''=='' ''y'' None,
              CacheWrite ?op ''y'' ?ra]"
  let ?rb = "\<lparr>items = [\<lparr>path = ''r1'', metadata_occurs = OccursString ''1''\<rparr>,
                       \<lparr>path = ''r3'', metadata_occurs = OccursString ''0''\<rparr>],
              filterKey = Some ''text'', hints = []\<rparr>"
  let ?cb = "[CacheRead ?op ''x'', CountCall ''=='' ''x'', QueryCall ''=='' ''x'' None,
              CacheWrite ?op ''x'' ?rb]"
  have op: "?op = ''fulltext:contains'' \<or> ?op = ''fulltext:!contains''" by simp
  have miss: "s_cache (qc_substrate ?ctx) ?op (''y'' @ '' OR '' @ ''x'') = None"
    by (simp add: example_context_def table_substrate_def)
  have A: "\<not> includes_str '' OR '' ''y''" and B: "\<not> includes_str '' OR '' ''x''" by simp_all
  have tail: "drop (length ''y'' - 3) ''y'' \<noteq> '' OR''" by simp
  have opts: "default_query_options = (case None of None \<Rightarrow> default_query_options | Some given \<Rightarrow> given)"
    by simp
  have qa: "query ?ctx 1 (OpString ?op) ''y'' (Some default_query_options) = Some (Inr ?ra, ?ca)"
    by code_simp
  have qb: "query ?ctx 1 (OpString ?op) ''x'' (Some default_query_options) = Some (Inr ?rb, ?cb)"
    by code_simp
  have k: "key (qc_index ?ctx) = ''text''"
    by (simp add: example_context_def example_index_def)
  from or_query_is_union[OF op miss A B tail opts qa qb] show ?thesis
  proof (elim exE conjE, goal_cases)
    case (1 zs)
    from 1(3) have "path ` set zs = {''r3''}" by auto
    with 1(1) qa qb k show ?case
      by (intro exI[of _ zs] exI[of _ ?ra] exI[of _ ?rb] exI[of _ ?ca] exI[of _ ?cb]) simp
  qed
qed

text \<open>
  Claim C5 as stated fails when \<open>A\<close> ends in \<open>" OR"\<close>: \<open>x OR\<close> and \<open>y\<close> contain no \<open>" OR "\<close>, but
  \<open>x OR OR y\<close> is split into \<open>x\<close> and \<open>OR y\<close>.  On the example index the query of the whole
  string returns the records r1 and r3, while the query of \<open>x OR\<close> returns none and the query
  of \<open>y\<close> returns r1.
\<close>

theorem or_split_counterexample:
  "\<not> includes_str '' OR '' ''x OR'' \<and> \<not> includes_str '' OR '' ''y'' \<and>
   map_option (map_sum id (map path \<circ> items) \<circ> fst)
     (query (example_context example_table) 2 (OpString ''fulltext:contains'')
        (''x OR'' @ '' OR '' @ ''y'') None) = Some (Inr [''r1'', ''r3'']) \<and>
   map_option (map_sum id (map path \<circ> items) \<circ> fst)
     (query (example_context example_table) 1 (OpString ''fulltext:contains'') ''x OR'' None)
       = Some (Inr []) \<and>
   map_option (map_sum id (map path \<circ> items) \<circ> fst)
     (query (example_context example_table) 1 (OpString ''fulltext:contains'') ''y'' None)
       = Some (Inr [''r1''])"
  by code_simp

section \<open>Verification: the phrase check\<close>

lemma check_next_integers:
  "i < length P \<Longrightarrow>
   check_next (integer_matches P) i (Some prev)
     = Inr (\<forall>j. i \<le> j \<and> j < length P \<longrightarrow> prev + 1 + int (j - i) \<in> set (P ! j))"
proof (induction "length P - i" arbitrary: i prev)
  case 0
  then show ?case by simp
next
  case (Suc d)
  have here: "integer_matches P ! i = Some (map Some (P ! i))"
    using Suc.prems by (simp add: integer_matches_def)
  have mem: "js_succ (Some prev) \<in> set (map Some (P ! i)) \<longleftrightarrow> prev + 1 \<in> set (P ! i)"
    by (auto simp: js_succ_def)
  show ?case
  proof (cases "prev + 1 \<in> set (P ! i)")
    case False
    then have "check_next (integer_matches P) i (Some prev) = Inr False"
      using Suc.prems here mem by (subst check_next.simps) (simp add: integer_matches_def)
    moreover have "\<not> (\<forall>j. i \<le> j \<and> j < length P \<longrightarrow> prev + 1 + int (j - i) \<in> set (P ! j))"
      using False Suc.prems by (intro notI) (drule spec[of _ i], simp)
    ultimately show ?thesis by simp
  next
    case True
    show ?thesis
    proof (cases "i = length P - 1")
      case last: True
      then have "check_next (integer_matches P) i (Some prev) = Inr True"
        using Suc.prems here mem True by (subst check_next.simps) (simp add: integer_matches_def)
      moreover have "\<forall>j. i \<le> j \<and> j < length P \<longrightarrow> prev + 1 + int (j - i) \<in> set (P ! j)"
      proof (intro allI impI)
        fix j assume "i \<le> j \<and> j < length P"
        with last have "j = i" by linarith
        with True show "prev + 1 + int (j - i) \<in> set (P ! j)" by simp
      qed
      ultimately show ?thesis by simp
    next
      case more: False
      with Suc.prems have lt: "i + 1 < length P" by simp
      have d: "d = length P - (i + 1)" using Suc.hyps(2) by simp
      have step: "check_next (integer_matches P) i (Some prev)
                    = check_next (integer_matches P) (i + 1) (Some (prev + 1))"
        using Suc.prems here mem True more
        by (subst check_next.simps) (simp add: integer_matches_def js_succ_def)
      have rest: "check_next (integer_matches P) (i + 1) (Some (prev + 1))
          = Inr (\<forall>j. i + 1 \<le> j \<and> j < length P \<longrightarrow> prev + 1 + 1 + int (j - (i + 1)) \<in> set (P ! j))"
        by (rule Suc.hyps(1)[OF d lt])
      have "(\<forall>j. i + 1 \<le> j \<and> j < length P \<longrightarrow> prev + 1 + 1 + int (j - (i + 1)) \<in> set (P ! j))
          \<longleftrightarrow> (\<forall>j. i \<le> j \<and> j < length P \<longrightarrow> prev + 1 + int (j - i) \<in> set (P ! j))"
      proof
        assume a: "\<forall>j. i + 1 \<le> j \<and> j < length P \<longrightarrow> prev + 1 + 1 + int (j - (i + 1)) \<in> set (P ! j)"
        show "\<forall>j. i \<le> j \<and> j < length P \<longrightarrow> prev + 1 + int (j - i) \<in> set (P ! j)"
        proof (intro allI impI)
          fix j assume j: "i \<le> j \<and> j < length P"
          show "prev + 1 + int (j - i) \<in> set (P ! j)"
          proof (cases "j = i")
            case True
            with \<open>prev + 1 \<in> set (P ! i)\<close> show ?thesis by simp
          next
            case False
            with j have "i + 1 \<le> j \<and> j < length P" by simp
            with a have m: "prev + 1 + 1 + int (j - (i + 1)) \<in> set (P ! j)" by blast
            have eq: "prev + 1 + 1 + int (j - (i + 1)) = prev + 1 + int (j - i)"
              using False j by (simp add: of_nat_diff)
            from m show ?thesis unfolding eq .
          qed
        qed
      next
        assume a: "\<forall>j. i \<le> j \<and> j < length P \<longrightarrow> prev + 1 + int (j - i) \<in> set (P ! j)"
        show "\<forall>j. i + 1 \<le> j \<and> j < length P \<longrightarrow> prev + 1 + 1 + int (j - (i + 1)) \<in> set (P ! j)"
        proof (intro allI impI)
          fix j assume j: "i + 1 \<le> j \<and> j < length P"
          then have "i \<le> j \<and> j < length P" by simp
          with a have m: "prev + 1 + int (j - i) \<in> set (P ! j)" by blast
          have eq: "prev + 1 + 1 + int (j - (i + 1)) = prev + 1 + int (j - i)"
            using j by (simp add: of_nat_diff)
          from m show "prev + 1 + 1 + int (j - (i + 1)) \<in> set (P ! j)" unfolding eq .
        qed
      qed
      with step rest show ?thesis by simp
    qed
  qed
qed

lemma check_first_integers:
  "2 \<le> length P \<Longrightarrow>
   check_first (integer_matches P) (map Some ps)
     = Inr (\<exists>p\<in>set ps. \<forall>j. 1 \<le> j \<and> j < length P \<longrightarrow> p + int j \<in> set (P ! j))"
proof (induction ps)
  case Nil
  then show ?case by simp
next
  case (Cons p ps)
  have one: "1 < length P" using Cons.prems by simp
  have n: "check_next (integer_matches P) 1 (Some p)
      = Inr (\<forall>j. 1 \<le> j \<and> j < length P \<longrightarrow> p + int j \<in> set (P ! j))"
  proof -
    have "(\<forall>j. 1 \<le> j \<and> j < length P \<longrightarrow> p + 1 + int (j - 1) \<in> set (P ! j))
        \<longleftrightarrow> (\<forall>j. 1 \<le> j \<and> j < length P \<longrightarrow> p + int j \<in> set (P ! j))"
    proof -
      have "p + 1 + int (j - 1) = p + int j" if "1 \<le> j" for j
        using that by (simp add: of_nat_diff)
      then show ?thesis by auto
    qed
    with check_next_integers[OF one, of p] show ?thesis by simp
  qed
  show ?case using n Cons.IH[OF Cons.prems] by auto
qed

text \<open>
  On position lists of integers the phrase check of two or more words succeeds exactly when
  some position \<open>p\<close> has \<open>p + j\<close> in the list of word \<open>j\<close> for every word.
\<close>

theorem check0_on_integers:
  assumes "2 \<le> length P"
  shows "check0 (integer_matches P) = Inr (\<exists>p. \<forall>j<length P. p + int j \<in> set (P ! j))"
proof -
  from assms obtain ps0 rest where P: "P = ps0 # rest" by (cases P) auto
  have "check0 (integer_matches P) = check_first (integer_matches P) (map Some ps0)"
    by (simp add: check0_def integer_matches_def P)
  also have "\<dots> = Inr (\<exists>p\<in>set ps0. \<forall>j. 1 \<le> j \<and> j < length P \<longrightarrow> p + int j \<in> set (P ! j))"
    by (rule check_first_integers[OF assms])
  also have "(\<exists>p\<in>set ps0. \<forall>j. 1 \<le> j \<and> j < length P \<longrightarrow> p + int j \<in> set (P ! j))
      \<longleftrightarrow> (\<exists>p. \<forall>j<length P. p + int j \<in> set (P ! j))"
  proof
    assume "\<exists>p\<in>set ps0. \<forall>j. 1 \<le> j \<and> j < length P \<longrightarrow> p + int j \<in> set (P ! j)"
    then obtain p where p: "p \<in> set ps0" "\<forall>j. 1 \<le> j \<and> j < length P \<longrightarrow> p + int j \<in> set (P ! j)"
      by blast
    have "\<forall>j<length P. p + int j \<in> set (P ! j)"
    proof (intro allI impI)
      fix j assume "j < length P"
      then show "p + int j \<in> set (P ! j)" using p by (cases j) (auto simp: P)
    qed
    then show "\<exists>p. \<forall>j<length P. p + int j \<in> set (P ! j)" ..
  next
    assume "\<exists>p. \<forall>j<length P. p + int j \<in> set (P ! j)"
    then obtain p where p: "\<forall>j<length P. p + int j \<in> set (P ! j)" ..
    then have "p + int 0 \<in> set (P ! 0)" using assms by (metis gr0I not_numeral_le_zero)
    then have "p \<in> set ps0" by (simp add: P)
    with p show "\<exists>p\<in>set ps0. \<forall>j. 1 \<le> j \<and> j < length P \<longrightarrow> p + int j \<in> set (P ! j)" by blast
  qed
  finally show ?thesis .
qed

theorem check0_on_integers_witness:
  "check0 (integer_matches [[0, 3], [2, 4]]) = Inr True \<and>
   check0 (integer_matches [[0, 3], [2, 5]]) = Inr False"
proof -
  have l: "2 \<le> length [[0, 3], [2, 4 :: int]]" "2 \<le> length [[0, 3], [2, 5 :: int]]" by simp_all
  have a: "\<exists>p. \<forall>j<length [[0, 3], [2, 4 :: int]]. p + int j \<in> set ([[0, 3], [2, 4]] ! j)"
    by (intro exI[of _ 3]) (auto simp: less_Suc_eq)
  have b: "\<not> (\<exists>p. \<forall>j<length [[0, 3], [2, 5 :: int]]. p + int j \<in> set ([[0, 3], [2, 5]] ! j))"
  proof
    assume "\<exists>p. \<forall>j<length [[0, 3], [2, 5 :: int]]. p + int j \<in> set ([[0, 3], [2, 5]] ! j)"
    then obtain p where p: "\<forall>j<length [[0, 3], [2, 5 :: int]]. p + int j \<in> set ([[0, 3], [2, 5]] ! j)" ..
    from p have "p + int 0 \<in> set ([[0, 3], [2, 5]] ! 0)" by (intro p[rule_format]) simp
    moreover from p have "p + int 1 \<in> set ([[0, 3], [2, 5]] ! 1)" by (intro p[rule_format]) simp
    ultimately show False by auto
  qed
  from check0_on_integers[OF l(1)] check0_on_integers[OF l(2)] a b show ?thesis by simp
qed

text \<open>
  Claim C1.  The record r1 of the example index has the text \<open>a x b a y b\<close>: \<open>a\<close> at the
  positions 0 and 3, \<open>b\<close> at 2 and 5, so no position \<open>p\<close> has \<open>a\<close> at \<open>p\<close> and \<open>b\<close> at \<open>p + 1\<close>.  The
  stored lists \<open>0,3\<close> and \<open>2,5\<close> are decoded as \<open>[0, NaN]\<close> and \<open>[2, NaN]\<close>, the check finds \<open>NaN\<close>
  in the second list after \<open>NaN\<close> in the first, and the phrase query \<open>"a b"\<close> returns r1 beside
  r2, whose text is \<open>a b\<close>.
\<close>

theorem phrase_check_false_positive:
  "decode_occurs ''0,3'' = [Some 0, None] \<and>
   decode_occurs ''2,5'' = [Some 2, None] \<and>
   check0 [Some (decode_occurs ''0,3''), Some (decode_occurs ''2,5'')] = Inr True \<and>
   check0 (integer_matches [[0, 3], [2, 5]]) = Inr False \<and>
   map_option (map_sum id (map path \<circ> items) \<circ> fst)
     (query (example_context example_table) 2 (OpString ''fulltext:contains'')
        ([CHR 0x22] @ ''a b'' @ [CHR 0x22]) None) = Some (Inr [''r1'', ''r2''])"
  by code_simp

section \<open>Verification: the in-memory predicate\<close>

lemma some_test_all_false:
  "(\<And>v. f v = Some (Inr (Some False))) \<Longrightarrow> some_test f vs = Some (Inr (Some False))"
  by (induction vs) auto

lemma test_string_without_key:
  assumes "string_property env text (key ix) = None"
  shows "test env ix (Suc n) (RStr text) ''fulltext:contains'' v = Some (Inr (Some False))"
  using assms by (simp add: get_property_def)

text \<open>
  Claim C10, as amended.  For an object whose indexed key holds a string, when the key is not
  the name of a property of that string (a character index, \<open>length\<close> or an inherited member)
  and the text tokenizes, \<open>test\<close> with \<open>fulltext:contains\<close> and a query containing \<open>" OR "\<close> returns
  \<open>false\<close>, whatever the words of the branches are.
\<close>

theorem test_or_is_false:
  assumes "f (key ix) = Some (PStr text)"
    and "includes_str '' OR '' val"
    and "string_property env text (key ix) = None"
    and "value_locale env ix (RObj f) = Some loc"
    and "getTextInfo env ix (TStr text) (Some loc) = Some (Inr textInfo)"
  shows "test env ix (Suc (Suc n)) (RObj f) ''fulltext:contains'' val = Some (Inr (Some False))"
proof -
  have branches: "some_test (\<lambda>v. test env ix (Suc n) (RStr text) ''fulltext:contains'' v)
                    (split_str '' OR '' val) = Some (Inr (Some False))"
    by (rule some_test_all_false) (rule test_string_without_key[OF assms(3)])
  have "test env ix (Suc (Suc n)) (RObj f) ''fulltext:contains'' val
          = some_test (\<lambda>v. test env ix (Suc n) (RStr text) ''fulltext:contains'' v)
              (split_str '' OR '' val)"
    using assms(1,2,4,5)
    by (subst test.simps) (simp add: get_property_def text_of_prop_def del: test.simps)
  with branches show ?thesis by simp
qed

theorem test_or_is_false_witness:
  "test ascii_env example_index (Suc (Suc 0)) (text_record ''the fox'') ''fulltext:contains''
      ''fox OR dog'' = Some (Inr (Some False)) \<and>
   test ascii_env example_index (Suc (Suc 0)) (text_record ''the fox'') ''fulltext:contains''
      ''fox'' = Some (Inr (Some True))"
proof -
  let ?f = "\<lambda>k. if k = ''text'' then Some (PStr ''the fox'') else None"
  let ?ti = "\<lparr>ti_locale = ''en'',
      words = [(''the'', \<lparr>word = ''the'', indexes = [0], sourceIndexes = [0]\<rparr>),
               (''fox'', \<lparr>word = ''fox'', indexes = [1], sourceIndexes = [4]\<rparr>)],
      ignored = []\<rparr>"
  have a1: "?f (key example_index) = Some (PStr ''the fox'')" by (simp add: example_index_def)
  have a2: "includes_str '' OR '' ''fox OR dog''" by simp
  have a3: "string_property ascii_env ''the fox'' (key example_index) = None" by code_simp
  have a4: "value_locale ascii_env example_index (RObj ?f) = Some ''en''" by code_simp
  have a5: "getTextInfo ascii_env example_index (TStr ''the fox'') (Some ''en'') = Some (Inr ?ti)"
    by code_simp
  have plain: "test ascii_env example_index (Suc (Suc 0)) (text_record ''the fox'') ''fulltext:contains''
      ''fox'' = Some (Inr (Some True))" by code_simp
  from test_or_is_false[OF a1 a2 a3 a4 a5, of 0] plain show ?thesis
    by (simp only: text_record_def simp_thms)
qed

text \<open>
  Claim C10 as stated fails for an index whose key names a character of the text: with the
  key \<open>0\<close>, the text \<open>a b\<close> handed on in the place of the object has the property \<open>0\<close>, the
  string \<open>a\<close>, and the branch \<open>a\<close> is found in it.
\<close>

theorem test_or_true_on_index_key:
  "test ascii_env (example_index \<lparr> key := ''0'' \<rparr>) 2
      (RObj (\<lambda>k. if k = ''0'' then Some (PStr ''a b'') else None)) ''fulltext:contains'' ''a OR b''
     = Some (Inr (Some True))"
  by code_simp

end
